theory Spec2Isabelle
  imports Complex_Main
begin

section \<open>Arrays, errors and small helpers\<close>

type_synonym vec = "real list"
type_synonym matrix = "real list list"

record tensor =
  shape :: "nat list"
  entry :: "nat list \<Rightarrow> real"

datatype failure =
    IndexError
  | AssertionError
  | NameError
  | ShapeError
  | TypeError
  | SingularMatrix

datatype error = NonPositiveSize | Failed failure

definition bnd :: "'e + 'a \<Rightarrow> ('a \<Rightarrow> 'e + 'b) \<Rightarrow> 'e + 'b" where
  "bnd m f = (case m of Inl e \<Rightarrow> Inl e | Inr x \<Rightarrow> f x)"

definition lift :: "failure + 'a \<Rightarrow> error + 'a" where
  "lift r = (case r of Inl e \<Rightarrow> Inl (Failed e) | Inr x \<Rightarrow> Inr x)"

fun foldE :: "('a \<Rightarrow> 'b \<Rightarrow> failure + 'b) \<Rightarrow> 'a list \<Rightarrow> 'b \<Rightarrow> failure + 'b" where
  "foldE f [] b = Inr b"
| "foldE f (x # xs) b = bnd (f x b) (foldE f xs)"

fun mapE :: "('a \<Rightarrow> failure + 'b) \<Rightarrow> 'a list \<Rightarrow> failure + 'b list" where
  "mapE f [] = Inr []"
| "mapE f (x # xs) = bnd (f x) (\<lambda>y. bnd (mapE f xs) (\<lambda>ys. Inr (y # ys)))"

definition item :: "'a list \<Rightarrow> nat \<Rightarrow> failure + 'a" where
  "item xs k = (if k < length xs then Inr (xs ! k) else Inl IndexError)"

definition in_bounds :: "nat list \<Rightarrow> nat list \<Rightarrow> bool" where
  "in_bounds dims idx = list_all2 (<) idx dims"

definition zeros :: "nat list \<Rightarrow> tensor" where
  "zeros dims = \<lparr>shape = dims, entry = (\<lambda>idx. 0)\<rparr>"

definition setitem :: "tensor \<Rightarrow> nat list \<Rightarrow> real \<Rightarrow> failure + tensor" where
  "setitem T idx v =
     (if in_bounds (shape T) idx then Inr (T\<lparr>entry := (entry T)(idx := v)\<rparr>)
      else Inl IndexError)"

section \<open>Mutation source term\<close>

definition unit_index :: "nat \<Rightarrow> nat \<Rightarrow> nat list" where
  "unit_index n k = (replicate n 0)[k := 1]"

definition calcB_body :: "nat list \<Rightarrow> vec \<Rightarrow> nat \<Rightarrow> tensor \<Rightarrow> failure + tensor" where
  "calcB_body dims u k B =
     bnd (item dims k) (\<lambda>dk. bnd (item u k) (\<lambda>uk.
       setitem B (unit_index (length dims) k) ((real dk - 1) * uk)))"

definition calcB :: "nat list \<Rightarrow> vec \<Rightarrow> failure + tensor" where
  "calcB dims u = foldE (calcB_body dims u) [0..<length dims] (zeros dims)"


section \<open>Array primitives used by the splitting driver\<close>

definition tadd :: "tensor \<Rightarrow> tensor \<Rightarrow> tensor" where
  "tadd T U = \<lparr>shape = shape T, entry = (\<lambda>idx. entry T idx + entry U idx)\<rparr>"

definition tscale :: "real \<Rightarrow> tensor \<Rightarrow> tensor" where
  "tscale c T = \<lparr>shape = shape T, entry = (\<lambda>idx. c * entry T idx)\<rparr>"

fun unravel :: "nat list \<Rightarrow> nat \<Rightarrow> nat list" where
  "unravel [] c = []"
| "unravel (d # ds) c = (c div prod_list ds) # unravel ds (c mod prod_list ds)"

fun ravel :: "nat list \<Rightarrow> nat list \<Rightarrow> nat" where
  "ravel (d # ds) (i # js) = i * prod_list ds + ravel ds js"
| "ravel ds js = 0"

definition reshape :: "nat list \<Rightarrow> tensor \<Rightarrow> failure + tensor" where
  "reshape dims T =
     (if prod_list dims = prod_list (shape T)
      then Inr \<lparr>shape = dims, entry = (\<lambda>idx. entry T (unravel (shape T) (ravel dims idx)))\<rparr>
      else Inl ShapeError)"

definition flatten :: "tensor \<Rightarrow> vec" where
  "flatten T = map (\<lambda>c. entry T (unravel (shape T) c)) [0..<prod_list (shape T)]"

definition of_flat :: "nat list \<Rightarrow> vec \<Rightarrow> failure + tensor" where
  "of_flat dims v =
     (if length v = prod_list dims
      then Inr \<lparr>shape = dims, entry = (\<lambda>idx. v ! ravel dims idx)\<rparr>
      else Inl ShapeError)"

definition as_vec :: "tensor \<Rightarrow> vec" where
  "as_vec T = map (\<lambda>i. entry T [i]) [0..<hd (shape T)]"

definition of_vec :: "vec \<Rightarrow> tensor" where
  "of_vec v = \<lparr>shape = [length v],
               entry = (\<lambda>idx. case idx of [i] \<Rightarrow> (if i < length v then v ! i else 0) | _ \<Rightarrow> 0)\<rparr>"

definition mat_vec :: "matrix \<Rightarrow> vec \<Rightarrow> vec" where
  "mat_vec M x = map (\<lambda>row. \<Sum>k\<leftarrow>[0..<length x]. row ! k * x ! k) M"

definition dot :: "matrix \<Rightarrow> tensor \<Rightarrow> failure + tensor" where
  "dot Q T =
     (case shape T of
        [] \<Rightarrow> Inl ShapeError
      | d # ds \<Rightarrow>
          if list_all (\<lambda>row. length row = d) Q
          then Inr \<lparr>shape = length Q # ds,
                    entry = (\<lambda>idx. case idx of
                               [] \<Rightarrow> 0
                             | i # rest \<Rightarrow> (\<Sum>k\<leftarrow>[0..<d]. Q ! i ! k * entry T (k # rest)))\<rparr>
          else Inl ShapeError)"

definition index_of :: "nat list \<Rightarrow> nat \<Rightarrow> nat" where
  "index_of axes b = length (takeWhile (\<lambda>a. a \<noteq> b) axes)"

definition transpose_axes :: "nat list \<Rightarrow> tensor \<Rightarrow> failure + tensor" where
  "transpose_axes axes T =
     (if length axes = length (shape T) \<and> set axes = {..<length axes}
      then Inr \<lparr>shape = map (\<lambda>a. shape T ! a) axes,
                entry = (\<lambda>idx. entry T (map (\<lambda>b. idx ! index_of axes b) [0..<length axes]))\<rparr>
      else Inl ShapeError)"

definition transpose_rev :: "tensor \<Rightarrow> tensor" where
  "transpose_rev T = \<lparr>shape = rev (shape T), entry = (\<lambda>idx. entry T (rev idx))\<rparr>"

definition get_line :: "tensor \<Rightarrow> nat \<Rightarrow> nat list \<Rightarrow> vec" where
  "get_line T a idx = map (\<lambda>k. entry T (idx[a := k])) [0..<shape T ! a]"

definition set_line :: "tensor \<Rightarrow> nat \<Rightarrow> nat list \<Rightarrow> vec \<Rightarrow> failure + tensor" where
  "set_line T a idx v =
     (if length v = shape T ! a
      then Inr (T\<lparr>entry := (\<lambda>j. if j[a := 0] = idx[a := 0] \<and> j ! a < length v
                                  then v ! (j ! a) else entry T j)\<rparr>)
      else Inl ShapeError)"

definition for_axis ::
  "nat \<Rightarrow> (nat \<Rightarrow> tensor \<Rightarrow> failure + tensor) \<Rightarrow> tensor \<Rightarrow> failure + tensor" where
  "for_axis a body T = bnd (item (shape T) a) (\<lambda>n. foldE body [0..<n] T)"

type_synonym solver = "vec \<Rightarrow> vec"

definition solve_line :: "solver list \<Rightarrow> nat \<Rightarrow> nat list \<Rightarrow> tensor \<Rightarrow> failure + tensor" where
  "solve_line slv a idx T = bnd (item slv a) (\<lambda>f. set_line T a idx (f (get_line T a idx)))"

type_synonym tsolve = "vec \<Rightarrow> vec \<Rightarrow> vec \<Rightarrow> vec \<Rightarrow> vec"

definition tsolve_line ::
  "tsolve \<Rightarrow> vec list \<Rightarrow> vec list \<Rightarrow> vec list \<Rightarrow> nat \<Rightarrow> nat list \<Rightarrow> tensor \<Rightarrow> failure + tensor" where
  "tsolve_line ts A Di C a idx T =
     bnd (item A a) (\<lambda>lo. bnd (item Di a) (\<lambda>di. bnd (item C a) (\<lambda>up.
       set_line T a idx (ts lo di up (get_line T a idx)))))"

section \<open>Explicit half step, one function per rank and axis\<close>

definition ud1_2pop_1 :: "tensor \<Rightarrow> matrix list \<Rightarrow> failure + tensor" where
  "ud1_2pop_1 sfs Q = bnd (item Q 0) (\<lambda>q. dot q sfs)"

definition ud1_2pop_2 :: "tensor \<Rightarrow> matrix list \<Rightarrow> failure + tensor" where
  "ud1_2pop_2 sfs Q =
     bnd (item Q 1) (\<lambda>q. bnd (dot q (transpose_rev sfs)) (\<lambda>r. Inr (transpose_rev r)))"

definition ud1_3pop_1 :: "tensor \<Rightarrow> matrix list \<Rightarrow> failure + tensor" where
  "ud1_3pop_1 sfs Q =
     (let dims = shape sfs; dim2 = prod_list (drop 1 dims)
      in bnd (item Q 0) (\<lambda>q. bnd (item dims 0) (\<lambda>d0.
           bnd (reshape [d0, dim2] sfs) (\<lambda>m. bnd (dot q m) (reshape dims)))))"

definition ud1_swapped ::
  "nat list \<Rightarrow> nat \<Rightarrow> tensor \<Rightarrow> matrix list \<Rightarrow> failure + tensor" where
  "ud1_swapped axes k sfs Q =
     bnd (item Q k) (\<lambda>q. bnd (transpose_axes axes sfs) (\<lambda>s.
       bnd (ud1_3pop_1 s [q]) (transpose_axes axes)))"

definition ud1_3pop_2 :: "tensor \<Rightarrow> matrix list \<Rightarrow> failure + tensor" where
  "ud1_3pop_2 = ud1_swapped [1, 0, 2] 1"

definition ud1_3pop_3 :: "tensor \<Rightarrow> matrix list \<Rightarrow> failure + tensor" where
  "ud1_3pop_3 = ud1_swapped [2, 1, 0] 2"

definition ud1_4pop_1 :: "tensor \<Rightarrow> matrix list \<Rightarrow> failure + tensor" where
  "ud1_4pop_1 sfs Q = ud1_3pop_1 sfs Q"

definition ud1_4pop_2 :: "tensor \<Rightarrow> matrix list \<Rightarrow> failure + tensor" where
  "ud1_4pop_2 = ud1_swapped [1, 0, 2, 3] 1"

definition ud1_4pop_3 :: "tensor \<Rightarrow> matrix list \<Rightarrow> failure + tensor" where
  "ud1_4pop_3 = ud1_swapped [2, 1, 0, 3] 2"

definition ud1_4pop_4 :: "tensor \<Rightarrow> matrix list \<Rightarrow> failure + tensor" where
  "ud1_4pop_4 = ud1_swapped [3, 1, 2, 0] 3"

definition ud1_5pop_1 :: "tensor \<Rightarrow> matrix list \<Rightarrow> failure + tensor" where
  "ud1_5pop_1 sfs Q = ud1_3pop_1 sfs Q"

definition ud1_5pop_2 :: "tensor \<Rightarrow> matrix list \<Rightarrow> failure + tensor" where
  "ud1_5pop_2 = ud1_swapped [1, 0, 2, 3, 4] 1"

definition ud1_5pop_3 :: "tensor \<Rightarrow> matrix list \<Rightarrow> failure + tensor" where
  "ud1_5pop_3 = ud1_swapped [2, 1, 0, 3, 4] 2"

definition ud1_5pop_4 :: "tensor \<Rightarrow> matrix list \<Rightarrow> failure + tensor" where
  "ud1_5pop_4 = ud1_swapped [3, 1, 2, 0, 4] 3"

definition ud1_5pop_5 :: "tensor \<Rightarrow> matrix list \<Rightarrow> failure + tensor" where
  "ud1_5pop_5 = ud1_swapped [4, 1, 2, 3, 0] 4"

section \<open>Implicit half step: one solve per line of the tensor\<close>

definition ud2_2pop_1 :: "tensor \<Rightarrow> solver list \<Rightarrow> failure + tensor" where
  "ud2_2pop_1 sfs slv = for_axis 1 (\<lambda>i. solve_line slv 0 [0, i]) sfs"

definition ud2_2pop_2 :: "tensor \<Rightarrow> solver list \<Rightarrow> failure + tensor" where
  "ud2_2pop_2 sfs slv = for_axis 0 (\<lambda>i. solve_line slv 1 [i, 0]) sfs"

definition ud2_3pop_1 :: "tensor \<Rightarrow> solver list \<Rightarrow> failure + tensor" where
  "ud2_3pop_1 sfs slv =
     for_axis 2 (\<lambda>i. for_axis 1 (\<lambda>j. solve_line slv 0 [0, j, i])) sfs"

definition ud2_3pop_2 :: "tensor \<Rightarrow> solver list \<Rightarrow> failure + tensor" where
  "ud2_3pop_2 sfs slv =
     for_axis 2 (\<lambda>i. for_axis 0 (\<lambda>j. solve_line slv 1 [j, 0, i])) sfs"

definition ud2_3pop_3 :: "tensor \<Rightarrow> solver list \<Rightarrow> failure + tensor" where
  "ud2_3pop_3 sfs slv =
     for_axis 1 (\<lambda>i. for_axis 0 (\<lambda>j. solve_line slv 2 [j, i, 0])) sfs"

definition ud2_4pop_1 :: "tensor \<Rightarrow> solver list \<Rightarrow> failure + tensor" where
  "ud2_4pop_1 sfs slv =
     for_axis 1 (\<lambda>i. for_axis 2 (\<lambda>j. for_axis 3 (\<lambda>k. solve_line slv 0 [0, i, j, k]))) sfs"

definition ud2_4pop_2 :: "tensor \<Rightarrow> solver list \<Rightarrow> failure + tensor" where
  "ud2_4pop_2 sfs slv =
     for_axis 0 (\<lambda>i. for_axis 2 (\<lambda>j. for_axis 3 (\<lambda>k. solve_line slv 1 [i, 0, j, k]))) sfs"

definition ud2_4pop_3 :: "tensor \<Rightarrow> solver list \<Rightarrow> failure + tensor" where
  "ud2_4pop_3 sfs slv =
     for_axis 0 (\<lambda>i. for_axis 1 (\<lambda>j. for_axis 3 (\<lambda>k. solve_line slv 2 [i, j, 0, k]))) sfs"

definition ud2_4pop_4 :: "tensor \<Rightarrow> solver list \<Rightarrow> failure + tensor" where
  "ud2_4pop_4 sfs slv =
     for_axis 0 (\<lambda>i. for_axis 1 (\<lambda>j. for_axis 2 (\<lambda>k. solve_line slv 3 [i, j, k, 0]))) sfs"

definition ud2_5pop_1 :: "tensor \<Rightarrow> solver list \<Rightarrow> failure + tensor" where
  "ud2_5pop_1 sfs slv =
     for_axis 1 (\<lambda>i. for_axis 2 (\<lambda>j. for_axis 3 (\<lambda>k. for_axis 4 (\<lambda>l.
       solve_line slv 0 [0, i, j, k, l])))) sfs"

definition ud2_5pop_2 :: "tensor \<Rightarrow> solver list \<Rightarrow> failure + tensor" where
  "ud2_5pop_2 sfs slv =
     for_axis 0 (\<lambda>i. for_axis 2 (\<lambda>j. for_axis 3 (\<lambda>k. for_axis 4 (\<lambda>l.
       solve_line slv 1 [i, 0, j, k, l])))) sfs"

definition ud2_5pop_3 :: "tensor \<Rightarrow> solver list \<Rightarrow> failure + tensor" where
  "ud2_5pop_3 sfs slv =
     for_axis 0 (\<lambda>i. for_axis 1 (\<lambda>j. for_axis 3 (\<lambda>k. for_axis 4 (\<lambda>l.
       solve_line slv 2 [i, j, 0, k, l])))) sfs"

definition ud2_5pop_4 :: "tensor \<Rightarrow> solver list \<Rightarrow> failure + tensor" where
  "ud2_5pop_4 sfs slv =
     for_axis 0 (\<lambda>i. for_axis 1 (\<lambda>j. for_axis 2 (\<lambda>k. for_axis 4 (\<lambda>l.
       solve_line slv 3 [i, j, k, 0, l])))) sfs"

definition ud2_5pop_5 :: "tensor \<Rightarrow> solver list \<Rightarrow> failure + tensor" where
  "ud2_5pop_5 sfs slv =
     for_axis 0 (\<lambda>i. for_axis 1 (\<lambda>j. for_axis 2 (\<lambda>k. for_axis 3 (\<lambda>l.
       solve_line slv 4 [i, j, k, l, 0])))) sfs"

section \<open>Implicit half step of the neutral case (tridiagonal solver)\<close>

definition udn2_2pop_1 :: "tsolve \<Rightarrow> tensor \<Rightarrow> vec list \<Rightarrow> vec list \<Rightarrow> vec list \<Rightarrow> failure + tensor" where
  "udn2_2pop_1 ts sfs A Di C = for_axis 1 (\<lambda>i. tsolve_line ts A Di C 0 [0, i]) sfs"

definition udn2_2pop_2 :: "tsolve \<Rightarrow> tensor \<Rightarrow> vec list \<Rightarrow> vec list \<Rightarrow> vec list \<Rightarrow> failure + tensor" where
  "udn2_2pop_2 ts sfs A Di C = for_axis 0 (\<lambda>i. tsolve_line ts A Di C 1 [i, 0]) sfs"

definition udn2_3pop_1 :: "tsolve \<Rightarrow> tensor \<Rightarrow> vec list \<Rightarrow> vec list \<Rightarrow> vec list \<Rightarrow> failure + tensor" where
  "udn2_3pop_1 ts sfs A Di C =
     for_axis 2 (\<lambda>i. for_axis 1 (\<lambda>j. tsolve_line ts A Di C 0 [0, j, i])) sfs"

definition udn2_3pop_2 :: "tsolve \<Rightarrow> tensor \<Rightarrow> vec list \<Rightarrow> vec list \<Rightarrow> vec list \<Rightarrow> failure + tensor" where
  "udn2_3pop_2 ts sfs A Di C =
     for_axis 2 (\<lambda>i. for_axis 0 (\<lambda>j. tsolve_line ts A Di C 1 [j, 0, i])) sfs"

definition udn2_3pop_3 :: "tsolve \<Rightarrow> tensor \<Rightarrow> vec list \<Rightarrow> vec list \<Rightarrow> vec list \<Rightarrow> failure + tensor" where
  "udn2_3pop_3 ts sfs A Di C =
     for_axis 1 (\<lambda>i. for_axis 0 (\<lambda>j. tsolve_line ts A Di C 2 [j, i, 0])) sfs"

definition udn2_4pop_1 :: "tsolve \<Rightarrow> tensor \<Rightarrow> vec list \<Rightarrow> vec list \<Rightarrow> vec list \<Rightarrow> failure + tensor" where
  "udn2_4pop_1 ts sfs A Di C =
     for_axis 1 (\<lambda>i. for_axis 2 (\<lambda>j. for_axis 3 (\<lambda>k.
       tsolve_line ts A Di C 0 [0, i, j, k]))) sfs"

definition udn2_4pop_2 :: "tsolve \<Rightarrow> tensor \<Rightarrow> vec list \<Rightarrow> vec list \<Rightarrow> vec list \<Rightarrow> failure + tensor" where
  "udn2_4pop_2 ts sfs A Di C =
     for_axis 0 (\<lambda>i. for_axis 2 (\<lambda>j. for_axis 3 (\<lambda>k.
       tsolve_line ts A Di C 1 [i, 0, j, k]))) sfs"

definition udn2_4pop_3 :: "tsolve \<Rightarrow> tensor \<Rightarrow> vec list \<Rightarrow> vec list \<Rightarrow> vec list \<Rightarrow> failure + tensor" where
  "udn2_4pop_3 ts sfs A Di C =
     for_axis 0 (\<lambda>i. for_axis 1 (\<lambda>j. for_axis 3 (\<lambda>k.
       tsolve_line ts A Di C 2 [i, j, 0, k]))) sfs"

definition udn2_4pop_4 :: "tsolve \<Rightarrow> tensor \<Rightarrow> vec list \<Rightarrow> vec list \<Rightarrow> vec list \<Rightarrow> failure + tensor" where
  "udn2_4pop_4 ts sfs A Di C =
     for_axis 0 (\<lambda>i. for_axis 1 (\<lambda>j. for_axis 2 (\<lambda>k.
       tsolve_line ts A Di C 3 [i, j, k, 0]))) sfs"

definition udn2_5pop_1 :: "tsolve \<Rightarrow> tensor \<Rightarrow> vec list \<Rightarrow> vec list \<Rightarrow> vec list \<Rightarrow> failure + tensor" where
  "udn2_5pop_1 ts sfs A Di C =
     for_axis 1 (\<lambda>i. for_axis 2 (\<lambda>j. for_axis 3 (\<lambda>k. for_axis 4 (\<lambda>l.
       tsolve_line ts A Di C 0 [0, i, j, k, l])))) sfs"

definition udn2_5pop_2 :: "tsolve \<Rightarrow> tensor \<Rightarrow> vec list \<Rightarrow> vec list \<Rightarrow> vec list \<Rightarrow> failure + tensor" where
  "udn2_5pop_2 ts sfs A Di C =
     for_axis 0 (\<lambda>i. for_axis 2 (\<lambda>j. for_axis 3 (\<lambda>k. for_axis 4 (\<lambda>l.
       tsolve_line ts A Di C 1 [i, 0, j, k, l])))) sfs"

definition udn2_5pop_3 :: "tsolve \<Rightarrow> tensor \<Rightarrow> vec list \<Rightarrow> vec list \<Rightarrow> vec list \<Rightarrow> failure + tensor" where
  "udn2_5pop_3 ts sfs A Di C =
     for_axis 0 (\<lambda>i. for_axis 1 (\<lambda>j. for_axis 3 (\<lambda>k. for_axis 4 (\<lambda>l.
       tsolve_line ts A Di C 2 [i, j, 0, k, l])))) sfs"

definition udn2_5pop_4 :: "tsolve \<Rightarrow> tensor \<Rightarrow> vec list \<Rightarrow> vec list \<Rightarrow> vec list \<Rightarrow> failure + tensor" where
  "udn2_5pop_4 ts sfs A Di C =
     for_axis 0 (\<lambda>i. for_axis 1 (\<lambda>j. for_axis 2 (\<lambda>k. for_axis 4 (\<lambda>l.
       tsolve_line ts A Di C 3 [i, j, k, 0, l])))) sfs"

definition udn2_5pop_5 :: "tsolve \<Rightarrow> tensor \<Rightarrow> vec list \<Rightarrow> vec list \<Rightarrow> vec list \<Rightarrow> failure + tensor" where
  "udn2_5pop_5 ts sfs A Di C =
     for_axis 0 (\<lambda>i. for_axis 1 (\<lambda>j. for_axis 2 (\<lambda>k. for_axis 3 (\<lambda>l.
       tsolve_line ts A Di C 4 [i, j, k, l, 0])))) sfs"

section \<open>Dispatch by rank and axis\<close>

definition ud1_named :: "nat \<Rightarrow> nat \<Rightarrow> (tensor \<Rightarrow> matrix list \<Rightarrow> failure + tensor) option" where
  "ud1_named r i =
     (if r = 2 \<and> i = 1 then Some ud1_2pop_1 else if r = 2 \<and> i = 2 then Some ud1_2pop_2
      else if r = 3 \<and> i = 1 then Some ud1_3pop_1 else if r = 3 \<and> i = 2 then Some ud1_3pop_2
      else if r = 3 \<and> i = 3 then Some ud1_3pop_3
      else if r = 4 \<and> i = 1 then Some ud1_4pop_1 else if r = 4 \<and> i = 2 then Some ud1_4pop_2
      else if r = 4 \<and> i = 3 then Some ud1_4pop_3 else if r = 4 \<and> i = 4 then Some ud1_4pop_4
      else if r = 5 \<and> i = 1 then Some ud1_5pop_1 else if r = 5 \<and> i = 2 then Some ud1_5pop_2
      else if r = 5 \<and> i = 3 then Some ud1_5pop_3 else if r = 5 \<and> i = 4 then Some ud1_5pop_4
      else if r = 5 \<and> i = 5 then Some ud1_5pop_5
      else None)"

definition ud2_named :: "nat \<Rightarrow> nat \<Rightarrow> (tensor \<Rightarrow> solver list \<Rightarrow> failure + tensor) option" where
  "ud2_named r i =
     (if r = 2 \<and> i = 1 then Some ud2_2pop_1 else if r = 2 \<and> i = 2 then Some ud2_2pop_2
      else if r = 3 \<and> i = 1 then Some ud2_3pop_1 else if r = 3 \<and> i = 2 then Some ud2_3pop_2
      else if r = 3 \<and> i = 3 then Some ud2_3pop_3
      else if r = 4 \<and> i = 1 then Some ud2_4pop_1 else if r = 4 \<and> i = 2 then Some ud2_4pop_2
      else if r = 4 \<and> i = 3 then Some ud2_4pop_3 else if r = 4 \<and> i = 4 then Some ud2_4pop_4
      else if r = 5 \<and> i = 1 then Some ud2_5pop_1 else if r = 5 \<and> i = 2 then Some ud2_5pop_2
      else if r = 5 \<and> i = 3 then Some ud2_5pop_3 else if r = 5 \<and> i = 4 then Some ud2_5pop_4
      else if r = 5 \<and> i = 5 then Some ud2_5pop_5
      else None)"

definition udn2_named ::
  "nat \<Rightarrow> nat \<Rightarrow> (tsolve \<Rightarrow> tensor \<Rightarrow> vec list \<Rightarrow> vec list \<Rightarrow> vec list \<Rightarrow> failure + tensor) option" where
  "udn2_named r i =
     (if r = 2 \<and> i = 1 then Some udn2_2pop_1 else if r = 2 \<and> i = 2 then Some udn2_2pop_2
      else if r = 3 \<and> i = 1 then Some udn2_3pop_1 else if r = 3 \<and> i = 2 then Some udn2_3pop_2
      else if r = 3 \<and> i = 3 then Some udn2_3pop_3
      else if r = 4 \<and> i = 1 then Some udn2_4pop_1 else if r = 4 \<and> i = 2 then Some udn2_4pop_2
      else if r = 4 \<and> i = 3 then Some udn2_4pop_3 else if r = 4 \<and> i = 4 then Some udn2_4pop_4
      else if r = 5 \<and> i = 1 then Some udn2_5pop_1 else if r = 5 \<and> i = 2 then Some udn2_5pop_2
      else if r = 5 \<and> i = 3 then Some udn2_5pop_3 else if r = 5 \<and> i = 4 then Some udn2_5pop_4
      else if r = 5 \<and> i = 5 then Some udn2_5pop_5
      else None)"

definition update_step1 :: "tensor \<Rightarrow> matrix list \<Rightarrow> failure + tensor" where
  "update_step1 sfs Q =
     (if length Q \<noteq> length (shape sfs) then Inl AssertionError
      else foldE (\<lambda>i T. case ud1_named (length (shape T)) (i + 1) of
                          None \<Rightarrow> Inl NameError
                        | Some f \<Rightarrow> f T Q)
             [0..<length (shape sfs)] sfs)"

definition update_step2 :: "tensor \<Rightarrow> solver list \<Rightarrow> failure + tensor" where
  "update_step2 sfs slv =
     (if length slv \<noteq> length (shape sfs) then Inl AssertionError
      else foldE (\<lambda>i T. case ud2_named (length (shape T)) (i + 1) of
                          None \<Rightarrow> Inl NameError
                        | Some f \<Rightarrow> f T slv)
             [0..<length (shape sfs)] sfs)"

definition update_step2_neutral ::
  "tsolve \<Rightarrow> tensor \<Rightarrow> vec list \<Rightarrow> vec list \<Rightarrow> vec list \<Rightarrow> failure + tensor" where
  "update_step2_neutral ts sfs A Di C =
     (if length A \<noteq> length (shape sfs) then Inl AssertionError
      else foldE (\<lambda>i T. case udn2_named (length (shape T)) (i + 1) of
                          None \<Rightarrow> Inl NameError
                        | Some f \<Rightarrow> f ts T A Di C)
             [0..<length (shape sfs)] sfs)"


section \<open>Parameters of the integrators\<close>

datatype schedule = Constant vec | Varying "real \<Rightarrow> vec"

datatype param =
    Not_given
  | Scalar real
  | Vector vec
  | Scalar_fun "real \<Rightarrow> real"
  | Vector_fun "real \<Rightarrow> vec"

datatype rate = Rate real | Rates vec

datatype event = Evaluated vec | Warned real vec vec real

datatype mutation = Infinite_sites tensor | Reversible "matrix list"

record spectrum =
  sp_data :: tensor
  sp_mask_corners :: bool

record ext =
  compute_dt :: "vec \<Rightarrow> vec option \<Rightarrow> vec option \<Rightarrow> real"
  compute_N_effective :: "(real \<Rightarrow> vec) \<Rightarrow> real \<Rightarrow> real \<Rightarrow> vec"
  calcJK13 :: "nat \<Rightarrow> matrix"
  calcJK23 :: "nat \<Rightarrow> matrix"
  calcD :: "nat \<Rightarrow> matrix"
  calcS :: "nat \<Rightarrow> matrix \<Rightarrow> matrix"
  calcS2 :: "nat \<Rightarrow> matrix \<Rightarrow> matrix"
  factorized :: "matrix \<Rightarrow> solver option"
  calcB_FB :: "nat list \<Rightarrow> vec \<Rightarrow> vec \<Rightarrow> matrix list"
  calcD_dense :: "nat \<Rightarrow> matrix"
  mat_to_diag :: "matrix \<Rightarrow> vec \<times> vec \<times> vec"
  ts_factor :: "vec \<Rightarrow> vec \<Rightarrow> vec \<Rightarrow> vec \<times> vec \<times> vec"
  ts_solve :: tsolve

record args =
  sfs0 :: tensor
  Npop :: schedule
  tf :: real
  dt_fac :: real
  theta :: rate
  finite_genome :: bool
  theta_fd :: "rate option"
  theta_bd :: "rate option"
  frozen :: "bool list"

definition normalise :: "nat \<Rightarrow> real \<Rightarrow> param \<Rightarrow> schedule" where
  "normalise P dflt g =
     (case g of
        Not_given \<Rightarrow> Constant (replicate P dflt)
      | Scalar x \<Rightarrow> Constant (replicate P x)
      | Vector v \<Rightarrow> Constant v
      | Scalar_fun f \<Rightarrow> Varying (\<lambda>t. replicate P (f t))
      | Vector_fun f \<Rightarrow> Varying f)"

definition rates :: "nat \<Rightarrow> rate \<Rightarrow> vec" where
  "rates P th = (case th of Rate x \<Rightarrow> replicate P (x / 4) | Rates v \<Rightarrow> map (\<lambda>x. x / 4) v)"

definition rates_opt :: "nat \<Rightarrow> rate option \<Rightarrow> failure + vec" where
  "rates_opt P th = (case th of None \<Rightarrow> Inl TypeError | Some r \<Rightarrow> Inr (rates P r))"

definition mutation_rates :: "nat \<Rightarrow> args \<Rightarrow> failure + vec \<times> vec option" where
  "mutation_rates P A =
     (if \<not> finite_genome A then Inr (rates P (theta A), None)
      else bnd (rates_opt P (theta_fd A)) (\<lambda>u.
           bnd (rates_opt P (theta_bd A)) (\<lambda>v. Inr (u, Some v))))"

subsection \<open>Frozen populations\<close>

definition unfrozen :: "bool \<Rightarrow> real" where
  "unfrozen f = (if f then 0 else 1)"

definition as01 :: "bool \<Rightarrow> real" where
  "as01 f = (if f then 1 else 0)"

definition frozen_pops :: "bool list \<Rightarrow> nat list" where
  "frozen_pops fr = filter (\<lambda>i. fr ! i) [0..<length fr]"

definition assign_all :: "nat list \<Rightarrow> real \<Rightarrow> vec \<Rightarrow> failure + vec" where
  "assign_all pops c x =
     foldE (\<lambda>p v. if p < length v then Inr (v[p := c]) else Inl IndexError) pops x"

definition freeze_selection :: "bool list \<Rightarrow> schedule \<Rightarrow> failure + schedule" where
  "freeze_selection fr s =
     (case s of
        Varying s_func \<Rightarrow> Inr (Varying (\<lambda>t. map2 (\<lambda>x f. x * unfrozen f) (s_func t) fr))
      | Constant sv \<Rightarrow> bnd (assign_all (frozen_pops fr) 0 sv) (\<lambda>v. Inr (Constant v)))"

definition freeze_sizes :: "bool list \<Rightarrow> schedule \<Rightarrow> failure + schedule" where
  "freeze_sizes fr Np =
     (case Np of
        Varying nu_func \<Rightarrow>
          Inr (Varying (\<lambda>t. map2 (\<lambda>x f. x * unfrozen f + 10 ^ 40 * as01 f) (nu_func t) fr))
      | Constant nv \<Rightarrow> bnd (assign_all (frozen_pops fr) (10 ^ 40) nv) (\<lambda>v. Inr (Constant v)))"

definition mask_rates :: "bool list \<Rightarrow> vec \<Rightarrow> failure + vec" where
  "mask_rates fr u =
     (if length fr = length u then Inr (map2 (\<lambda>x f. x * unfrozen f) u fr)
      else if length fr = 1 then Inr (map (\<lambda>x. x * unfrozen (hd fr)) u)
      else Inl ShapeError)"

definition mask_rates_opt :: "bool list \<Rightarrow> vec option \<Rightarrow> failure + vec option" where
  "mask_rates_opt fr v =
     (case v of None \<Rightarrow> Inr None | Some w \<Rightarrow> bnd (mask_rates fr w) (\<lambda>w'. Inr (Some w')))"

record frozen_params =
  fp_s :: schedule
  fp_Npop :: schedule
  fp_u :: vec
  fp_v :: "vec option"

definition freeze_nomig :: "bool list \<Rightarrow> frozen_params \<Rightarrow> failure + frozen_params" where
  "freeze_nomig fr p =
     (if list_ex (\<lambda>f. f) fr
      then bnd (freeze_selection fr (fp_s p)) (\<lambda>s'.
           bnd (freeze_sizes fr (fp_Npop p)) (\<lambda>N'.
           bnd (mask_rates fr (fp_u p)) (\<lambda>u'.
           bnd (mask_rates_opt fr (fp_v p)) (\<lambda>v'.
             Inr \<lparr>fp_s = s', fp_Npop = N', fp_u = u', fp_v = v'\<rparr>))))
      else Inr p)"

definition freeze_neutral :: "bool list \<Rightarrow> frozen_params \<Rightarrow> failure + frozen_params" where
  "freeze_neutral fr p =
     (if list_ex (\<lambda>f. f) fr
      then bnd (freeze_sizes fr (fp_Npop p)) (\<lambda>N'.
           bnd (mask_rates fr (fp_u p)) (\<lambda>u'.
           bnd (mask_rates_opt fr (fp_v p)) (\<lambda>v'.
             Inr \<lparr>fp_s = fp_s p, fp_Npop = N', fp_u = u', fp_v = v'\<rparr>)))
      else Inr p)"

subsection \<open>Population sizes and the step-size controller\<close>

definition any_nonpos :: "vec \<Rightarrow> bool" where
  "any_nonpos N = list_ex (\<lambda>x. x \<le> 0) N"

definition at_time :: "schedule \<Rightarrow> real \<Rightarrow> vec" where
  "at_time p x = (case p of Constant v \<Rightarrow> v | Varying f \<Rightarrow> f x)"

definition max_rel_change :: "vec \<Rightarrow> vec \<Rightarrow> failure + real" where
  "max_rel_change N Nold =
     (case map2 (\<lambda>x y. \<bar>x - y\<bar> / y) N Nold of
        [] \<Rightarrow> Inl ShapeError
      | r # rs \<Rightarrow> Inr (fold max rs r))"

definition propose_dt :: "real \<Rightarrow> real \<Rightarrow> real \<Rightarrow> real \<Rightarrow> real" where
  "propose_dt bound Tmax fac t =
     (let dt = min bound (Tmax * fac) in if t + dt > Tmax then Tmax - t else dt)"

record ctl =
  c_dt :: real
  c_N :: vec
  c_Neff :: vec
  c_n_iter :: nat

function size_retry ::
  "ext \<Rightarrow> (real \<Rightarrow> vec) \<Rightarrow> real \<Rightarrow> vec \<Rightarrow> ctl \<Rightarrow> (error + ctl) \<times> event list" where
  "size_retry X f t Nold c =
     (case max_rel_change (c_N c) Nold of
        Inl e \<Rightarrow> (Inl (Failed e), [])
      | Inr change \<Rightarrow>
          if change > 1 / 2 then
            (let dt = c_dt c / 2; N = f ((t + dt) / 2) in
             if any_nonpos N then (Inl NonPositiveSize, [Evaluated N])
             else
               (let Neff = compute_N_effective X f (t / 2) ((t + dt) / 2);
                    n_iter = c_n_iter c + 1;
                    c' = \<lparr>c_dt = dt, c_N = N, c_Neff = Neff, c_n_iter = n_iter\<rparr>
                in if n_iter \<ge> 10
                   then (case max_rel_change N Nold of
                           Inl e \<Rightarrow> (Inl (Failed e), [Evaluated N])
                         | Inr change' \<Rightarrow> (Inr c', [Evaluated N, Warned t Nold N change']))
                   else (let (r, ev) = size_retry X f t Nold c' in (r, Evaluated N # ev))))
          else (Inr c, []))"
  by pat_completeness auto
termination
  by (relation "measure (\<lambda>(X, f, t, Nold, c). 10 - c_n_iter c)") auto

definition adapt_sizes ::
  "ext \<Rightarrow> schedule \<Rightarrow> real \<Rightarrow> vec \<Rightarrow> ctl \<Rightarrow> (error + ctl) \<times> event list" where
  "adapt_sizes X Np t Nold c =
     (case Np of
        Constant v \<Rightarrow> (Inr c, [])
      | Varying f \<Rightarrow>
          (let N = f ((t + c_dt c) / 2) in
           if any_nonpos N then (Inl NonPositiveSize, [Evaluated N])
           else
             (let Neff = compute_N_effective X f (t / 2) ((t + c_dt c) / 2);
                  (r, ev) = size_retry X f t Nold (c\<lparr>c_N := N, c_Neff := Neff, c_n_iter := 0\<rparr>)
              in (r, Evaluated N # ev))))"

definition initial_sizes :: "schedule \<Rightarrow> (error + vec) \<times> event list" where
  "initial_sizes Np =
     (let N = at_time Np 0
      in (if any_nonpos N then Inl NonPositiveSize else Inr N, [Evaluated N]))"


subsection \<open>Reading the event log\<close>

fun is_evaluation :: "event \<Rightarrow> bool" where
  "is_evaluation (Evaluated N) = True"
| "is_evaluation (Warned t Nold N change) = False"

fun is_warning :: "event \<Rightarrow> bool" where
  "is_warning (Evaluated N) = False"
| "is_warning (Warned t Nold N change) = True"

fun positive_event :: "event \<Rightarrow> bool" where
  "positive_event (Evaluated N) = (\<not> any_nonpos N)"
| "positive_event (Warned t Nold N change) = True"

definition all_positive :: "event list \<Rightarrow> bool" where
  "all_positive ev = list_all positive_event ev"

definition stopped_at_nonpositive :: "event list \<Rightarrow> bool" where
  "stopped_at_nonpositive ev =
     (ev \<noteq> [] \<and> \<not> positive_event (last ev) \<and> all_positive (butlast ev))"

definition discipline :: "bool \<Rightarrow> event list \<Rightarrow> bool" where
  "discipline raised ev = (if raised then stopped_at_nonpositive ev else all_positive ev)"

definition evaluations :: "event list \<Rightarrow> nat" where
  "evaluations ev = length (filter is_evaluation ev)"

definition halved :: "ext \<Rightarrow> (real \<Rightarrow> vec) \<Rightarrow> real \<Rightarrow> ctl \<Rightarrow> ctl" where
  "halved X f t c =
     \<lparr>c_dt = c_dt c / 2, c_N = f ((t + c_dt c / 2) / 2),
      c_Neff = compute_N_effective X f (t / 2) ((t + c_dt c / 2) / 2),
      c_n_iter = c_n_iter c + 1\<rparr>"

subsection \<open>Operators of one axis\<close>

definition eye :: "nat \<Rightarrow> matrix" where
  "eye d = map (\<lambda>i. map (\<lambda>j. if i = j then 1 else 0) [0..<d]) [0..<d]"

definition smul :: "real \<Rightarrow> matrix \<Rightarrow> matrix" where
  "smul c M = map (map (\<lambda>x. c * x)) M"

definition madd :: "matrix \<Rightarrow> matrix \<Rightarrow> matrix" where
  "madd M M' = map2 (map2 (\<lambda>x y. x + y)) M M'"

definition msub :: "matrix \<Rightarrow> matrix \<Rightarrow> matrix" where
  "msub M M' = map2 (map2 (\<lambda>x y. x - y)) M M'"

definition vsmul :: "real \<Rightarrow> vec \<Rightarrow> vec" where
  "vsmul c v = map (\<lambda>x. c * x) v"

definition drift_ops :: "vec \<Rightarrow> matrix list \<Rightarrow> nat \<Rightarrow> failure + matrix list" where
  "drift_ops Ne vd P =
     mapE (\<lambda>i. bnd (item Ne i) (\<lambda>ne. bnd (item vd i) (\<lambda>m. Inr (smul (1 / 4 / ne) m)))) [0..<P]"

definition sel1_ops :: "vec \<Rightarrow> vec \<Rightarrow> matrix list \<Rightarrow> nat \<Rightarrow> failure + matrix list" where
  "sel1_ops s h vs P =
     mapE (\<lambda>i. bnd (item s i) (\<lambda>si. bnd (item h i) (\<lambda>hi. bnd (item vs i) (\<lambda>m.
       Inr (smul (si * hi) m))))) [0..<P]"

definition sel2_ops :: "vec \<Rightarrow> vec \<Rightarrow> matrix list \<Rightarrow> nat \<Rightarrow> failure + matrix list" where
  "sel2_ops s h vs2 P =
     mapE (\<lambda>i. bnd (item s i) (\<lambda>si. bnd (item h i) (\<lambda>hi. bnd (item vs2 i) (\<lambda>m.
       Inr (smul (si * (1 - 2 * hi)) m))))) [0..<P]"

definition axis_operator :: "matrix \<Rightarrow> matrix \<Rightarrow> matrix \<Rightarrow> matrix" where
  "axis_operator D S1 S2 = madd (madd D S1) S2"

definition explicit_matrix :: "real \<Rightarrow> matrix \<Rightarrow> matrix \<Rightarrow> matrix \<Rightarrow> matrix" where
  "explicit_matrix dt D S1 S2 = madd (eye (length S1)) (smul (dt / 2) (axis_operator D S1 S2))"

definition implicit_matrix :: "real \<Rightarrow> matrix \<Rightarrow> matrix \<Rightarrow> matrix \<Rightarrow> matrix" where
  "implicit_matrix dt D S1 S2 = msub (eye (length S1)) (smul (dt / 2) (axis_operator D S1 S2))"

section \<open>integrate_nomig\<close>

record nomig_cfg =
  k_Tmax :: real
  k_fac :: real
  k_Npop :: schedule
  k_s :: schedule
  k_h :: schedule
  k_B :: mutation
  k_dims :: "nat list"
  k_vd :: "matrix list"
  k_vs :: "matrix list"
  k_vs2 :: "matrix list"

record gstate =
  g_t :: real
  g_dt :: real
  g_sfs :: tensor
  g_N :: vec
  g_Nold :: vec
  g_Neff :: vec
  g_s_new :: vec
  g_s_old :: vec
  g_h_new :: vec
  g_h_old :: vec
  g_ops :: "(matrix list \<times> solver list) option"

definition rebuild_nomig ::
  "real \<Rightarrow> vec \<Rightarrow> vec \<Rightarrow> real \<Rightarrow> real \<Rightarrow> vec \<Rightarrow> vec \<Rightarrow> vec \<Rightarrow> vec \<Rightarrow> bool" where
  "rebuild_nomig t Nold N dt dt_old s_new s_old h_new h_old =
     (t = 0 \<or> Nold \<noteq> N \<or> dt \<noteq> dt_old \<or> s_new \<noteq> s_old \<or> h_new \<noteq> h_old)"

definition build_nomig ::
  "ext \<Rightarrow> nomig_cfg \<Rightarrow> vec \<Rightarrow> real \<Rightarrow> vec \<Rightarrow> vec \<Rightarrow> failure + matrix list \<times> solver list" where
  "build_nomig X K Neff dt s_new h_new =
     (let P = length (k_dims K) in
      bnd (drift_ops Neff (k_vd K) P) (\<lambda>D.
      bnd (sel1_ops s_new h_new (k_vs K) P) (\<lambda>S1.
      bnd (sel2_ops s_new h_new (k_vs2 K) P) (\<lambda>S2.
      bnd (mapE (\<lambda>i. case factorized X (implicit_matrix dt (D ! i) (S1 ! i) (S2 ! i)) of
                       None \<Rightarrow> Inl SingularMatrix | Some f \<Rightarrow> Inr f) [0..<P]) (\<lambda>slv.
        Inr (map (\<lambda>i. explicit_matrix dt (D ! i) (S1 ! i) (S2 ! i)) [0..<P], slv))))))"

definition add_reversible :: "real \<Rightarrow> matrix list \<Rightarrow> nat list \<Rightarrow> nat \<Rightarrow> tensor \<Rightarrow> failure + tensor" where
  "add_reversible dt Bs dims i sfs =
     bnd (item Bs i) (\<lambda>Bi.
     bnd (of_flat dims (mat_vec (smul dt Bi) (flatten sfs))) (\<lambda>m. Inr (tadd sfs m)))"

definition add_mutation :: "real \<Rightarrow> mutation \<Rightarrow> nat list \<Rightarrow> tensor \<Rightarrow> failure + tensor" where
  "add_mutation dt B dims sfs =
     (case B of
        Infinite_sites Bt \<Rightarrow> Inr (tadd sfs (tscale dt Bt))
      | Reversible Bs \<Rightarrow> foldE (add_reversible dt Bs dims) [0..<length dims] sfs)"

definition advance_nomig ::
  "nomig_cfg \<Rightarrow> matrix list \<times> solver list \<Rightarrow> real \<Rightarrow> tensor \<Rightarrow> failure + tensor" where
  "advance_nomig K ops dt sfs =
     (let Q = fst ops; slv = snd ops; P = length (k_dims K) in
      if P = 1 then
        bnd (item Q 0) (\<lambda>q. bnd (dot q sfs) (\<lambda>y. bnd (item slv 0) (\<lambda>f.
          case k_B K of
            Infinite_sites Bt \<Rightarrow> Inr (of_vec (f (as_vec (tadd y (tscale dt Bt)))))
          | Reversible Bs \<Rightarrow>
              bnd (item Bs 0) (\<lambda>Bm. bnd (dot (smul dt Bm) y) (\<lambda>m.
                Inr (of_vec (f (as_vec (tadd y m)))))))))
      else if P > 1 then
        bnd (update_step1 sfs Q) (\<lambda>y.
        bnd (add_mutation dt (k_B K) (k_dims K) y) (\<lambda>z. update_step2 z slv))
      else Inr sfs)"

definition nomig_proposal :: "ext \<Rightarrow> nomig_cfg \<Rightarrow> gstate \<Rightarrow> real" where
  "nomig_proposal X K st =
     propose_dt (compute_dt X (g_N st) (Some (g_s_new st)) (Some (g_h_new st)))
       (k_Tmax K) (k_fac K) (g_t st)"

definition nomig_apply :: "ext \<Rightarrow> nomig_cfg \<Rightarrow> gstate \<Rightarrow> ctl \<Rightarrow> failure + gstate" where
  "nomig_apply X K st c =
     (let t = g_t st; dt_old = g_dt st; dt = c_dt c; N = c_N c; Neff = c_Neff c;
          s_new = (case k_s K of Varying sf \<Rightarrow> sf ((t + dt / 2) / 2)
                               | Constant v \<Rightarrow> g_s_new st);
          h_new = (case k_h K of Varying hf \<Rightarrow> hf ((t + dt / 2) / 2)
                               | Constant v \<Rightarrow> g_h_new st)
      in bnd (if rebuild_nomig t (g_Nold st) N dt dt_old s_new (g_s_old st) h_new (g_h_old st)
              then bnd (build_nomig X K Neff dt s_new h_new) (\<lambda>ops. Inr (Some ops))
              else Inr (g_ops st)) (\<lambda>ops.
         bnd (case ops of None \<Rightarrow> Inl NameError
                        | Some o' \<Rightarrow> advance_nomig K o' dt (g_sfs st)) (\<lambda>sfs'.
           Inr \<lparr>g_t = t + dt, g_dt = dt, g_sfs = sfs', g_N = N, g_Nold = N, g_Neff = Neff,
                g_s_new = s_new, g_s_old = s_new, g_h_new = h_new, g_h_old = h_new,
                g_ops = ops\<rparr>)))"

definition nomig_step :: "ext \<Rightarrow> nomig_cfg \<Rightarrow> gstate \<Rightarrow> (error + gstate) \<times> event list" where
  "nomig_step X K st =
     (case adapt_sizes X (k_Npop K) (g_t st) (g_Nold st)
             \<lparr>c_dt = nomig_proposal X K st, c_N = g_N st, c_Neff = g_Neff st, c_n_iter = 0\<rparr> of
        (r, ev) \<Rightarrow> (bnd r (\<lambda>c. lift (nomig_apply X K st c)), ev))"

fun nomig_loop ::
  "ext \<Rightarrow> nomig_cfg \<Rightarrow> nat \<Rightarrow> gstate \<Rightarrow> (error + gstate) option \<times> event list" where
  "nomig_loop X K 0 st = (if g_t st < k_Tmax K then (None, []) else (Some (Inr st), []))"
| "nomig_loop X K (Suc fuel) st =
     (if g_t st < k_Tmax K then
        (case nomig_step X K st of
           (Inl e, ev) \<Rightarrow> (Some (Inl e), ev)
         | (Inr st', ev) \<Rightarrow> (let (r, ev') = nomig_loop X K fuel st' in (r, ev @ ev')))
      else (Some (Inr st), []))"

definition mutation_term :: "ext \<Rightarrow> nat list \<Rightarrow> vec \<Rightarrow> vec option \<Rightarrow> failure + mutation" where
  "mutation_term X dims u v =
     (case v of
        None \<Rightarrow> bnd (calcB dims u) (\<lambda>B. Inr (Infinite_sites B))
      | Some w \<Rightarrow> Inr (Reversible (calcB_FB X dims u w)))"

definition prepare_nomig ::
  "ext \<Rightarrow> args \<Rightarrow> schedule \<Rightarrow> frozen_params \<Rightarrow> vec \<Rightarrow> failure + nomig_cfg \<times> gstate" where
  "prepare_nomig X A h p N =
     (let dims = shape (sfs0 A); P = length dims;
          Tmax = tf A * 2;
          ljk = map (\<lambda>d. calcJK13 X (d - 1)) dims;
          ljk2 = map (\<lambda>d. calcJK23 X (d - 1)) dims;
          vd = map (calcD X) dims;
          s_new = at_time (fp_s p) 0;
          h_new = at_time h 0;
          vs = map2 (calcS X) dims ljk;
          vs2 = map2 (calcS2 X) dims ljk2
      in bnd (drift_ops N vd P) (\<lambda>D.
         bnd (sel1_ops s_new h_new vs P) (\<lambda>S1.
         bnd (sel2_ops s_new h_new vs2 P) (\<lambda>S2.
         bnd (mutation_term X dims (fp_u p) (fp_v p)) (\<lambda>B.
           Inr (\<lparr>k_Tmax = Tmax, k_fac = dt_fac A, k_Npop = fp_Npop p, k_s = fp_s p, k_h = h,
                 k_B = B, k_dims = dims, k_vd = vd, k_vs = vs, k_vs2 = vs2\<rparr>,
                \<lparr>g_t = 0, g_dt = Tmax * dt_fac A, g_sfs = sfs0 A, g_N = N, g_Nold = N,
                 g_Neff = N, g_s_new = s_new, g_s_old = s_new, g_h_new = h_new,
                 g_h_old = h_new, g_ops = None\<rparr>))))))"

definition integrate_nomig ::
  "ext \<Rightarrow> args \<Rightarrow> param \<Rightarrow> param \<Rightarrow> nat \<Rightarrow> (error + spectrum) option \<times> event list" where
  "integrate_nomig X A gamma h fuel =
     (let P = length (shape (sfs0 A));
          s = normalise P 0 gamma;
          h' = normalise P (1 / 2) h
      in case bnd (mutation_rates P A) (\<lambda>(u, v).
                freeze_nomig (frozen A) \<lparr>fp_s = s, fp_Npop = Npop A, fp_u = u, fp_v = v\<rparr>) of
           Inl e \<Rightarrow> (Some (Inl (Failed e)), [])
         | Inr p \<Rightarrow>
             (case initial_sizes (fp_Npop p) of
                (Inl e, ev) \<Rightarrow> (Some (Inl e), ev)
              | (Inr N, ev) \<Rightarrow>
                  (case prepare_nomig X A h' p N of
                     Inl e \<Rightarrow> (Some (Inl (Failed e)), ev)
                   | Inr (K, st0) \<Rightarrow>
                       (case nomig_loop X K fuel st0 of
                          (None, ev') \<Rightarrow> (None, ev @ ev')
                        | (Some (Inl e), ev') \<Rightarrow> (Some (Inl e), ev @ ev')
                        | (Some (Inr st), ev') \<Rightarrow>
                            (Some (Inr \<lparr>sp_data = g_sfs st,
                                        sp_mask_corners = (\<not> finite_genome A)\<rparr>),
                             ev @ ev')))))"

text \<open>The states the time loop of \<open>integrate_nomig\<close> passes through.\<close>

inductive nomig_reach :: "ext \<Rightarrow> nomig_cfg \<Rightarrow> gstate \<Rightarrow> gstate \<Rightarrow> bool"
  for X :: ext and K :: nomig_cfg and st0 :: gstate where
  reach_start: "nomig_reach X K st0 st0"
| reach_step: "nomig_reach X K st0 st \<Longrightarrow> g_t st < k_Tmax K \<Longrightarrow>
     nomig_step X K st = (Inr st', ev) \<Longrightarrow> nomig_reach X K st0 st'"

definition new_s :: "nomig_cfg \<Rightarrow> gstate \<Rightarrow> real \<Rightarrow> vec" where
  "new_s K st dt =
     (case k_s K of Varying sf \<Rightarrow> sf ((g_t st + dt / 2) / 2) | Constant v \<Rightarrow> g_s_new st)"

definition new_h :: "nomig_cfg \<Rightarrow> gstate \<Rightarrow> real \<Rightarrow> vec" where
  "new_h K st dt =
     (case k_h K of Varying hf \<Rightarrow> hf ((g_t st + dt / 2) / 2) | Constant v \<Rightarrow> g_h_new st)"

section \<open>integrate_neutral\<close>

record neutral_cfg =
  m_Tmax :: real
  m_fac :: real
  m_Npop :: schedule
  m_B :: mutation
  m_dims :: "nat list"
  m_vd :: "matrix list"
  m_diags :: "(vec \<times> vec \<times> vec) list"

record nstate =
  n_t :: real
  n_dt :: real
  n_sfs :: tensor
  n_N :: vec
  n_Nold :: vec
  n_Neff :: vec
  n_ops :: "(matrix list \<times> vec list \<times> vec list \<times> vec list) option"

definition rebuild_neutral :: "real \<Rightarrow> vec \<Rightarrow> vec \<Rightarrow> real \<Rightarrow> real \<Rightarrow> bool" where
  "rebuild_neutral t Nold N dt dt_old = (t = 0 \<or> Nold \<noteq> N \<or> dt \<noteq> dt_old)"

definition band_ops ::
  "(real \<Rightarrow> real) \<Rightarrow> ((vec \<times> vec \<times> vec) \<Rightarrow> vec) \<Rightarrow> vec \<Rightarrow> (vec \<times> vec \<times> vec) list \<Rightarrow> nat \<Rightarrow>
     failure + vec list" where
  "band_ops coef pick Ne diags P =
     mapE (\<lambda>i. bnd (item Ne i) (\<lambda>ne. bnd (item diags i) (\<lambda>dg.
       Inr (vsmul (coef ne) (pick dg))))) [0..<P]"

definition build_neutral ::
  "ext \<Rightarrow> neutral_cfg \<Rightarrow> vec \<Rightarrow> real \<Rightarrow> failure + matrix list \<times> vec list \<times> vec list \<times> vec list" where
  "build_neutral X K Neff dt =
     (let P = length (m_dims K); coef = (\<lambda>ne. - (1 / 2) * dt / 4 / ne) in
      bnd (drift_ops Neff (m_vd K) P) (\<lambda>D.
      bnd (band_ops coef fst Neff (m_diags K) P) (\<lambda>A.
      bnd (mapE (\<lambda>i. bnd (item Neff i) (\<lambda>ne. bnd (item (m_diags K) i) (\<lambda>dg.
             Inr (map2 (\<lambda>x y. x - y) (replicate (m_dims K ! i) 1)
                    (vsmul (1 / 2 * dt / 4 / ne) (fst (snd dg))))))) [0..<P]) (\<lambda>Di.
      bnd (band_ops coef (\<lambda>dg. snd (snd dg)) Neff (m_diags K) P) (\<lambda>C.
        (let fac = map (\<lambda>i. ts_factor X (A ! i) (Di ! i) (C ! i)) [0..<P]
         in Inr (map (\<lambda>i. madd (eye (m_dims K ! i)) (smul (1 / 2 * dt) (D ! i))) [0..<P],
                 map fst fac, map (\<lambda>x. fst (snd x)) fac, map (\<lambda>x. snd (snd x)) fac)))))))"


definition advance_neutral ::
  "ext \<Rightarrow> neutral_cfg \<Rightarrow> matrix list \<times> vec list \<times> vec list \<times> vec list \<Rightarrow> real \<Rightarrow> tensor \<Rightarrow>
     failure + tensor" where
  "advance_neutral X K ops dt sfs =
     (let Q = fst ops; A = fst (snd ops); Di = fst (snd (snd ops)); C = snd (snd (snd ops));
          P = length (m_dims K) in
      if P = 1 then
        bnd (item A 0) (\<lambda>lo. bnd (item Di 0) (\<lambda>di. bnd (item C 0) (\<lambda>up.
        bnd (item Q 0) (\<lambda>q. bnd (dot q sfs) (\<lambda>y.
          case m_B K of
            Infinite_sites Bt \<Rightarrow>
              Inr (of_vec (ts_solve X lo di up (as_vec (tadd y (tscale dt Bt)))))
          | Reversible Bs \<Rightarrow>
              bnd (item Bs 0) (\<lambda>Bm. bnd (dot (smul dt Bm) sfs) (\<lambda>m.
                Inr (of_vec (ts_solve X lo di up (as_vec (tadd y m)))))))))))
      else
        bnd (update_step1 sfs Q) (\<lambda>y.
        bnd (add_mutation dt (m_B K) (m_dims K) y) (\<lambda>z.
          update_step2_neutral (ts_solve X) z A Di C)))"

definition neutral_proposal :: "ext \<Rightarrow> neutral_cfg \<Rightarrow> nstate \<Rightarrow> real" where
  "neutral_proposal X K st =
     propose_dt (compute_dt X (n_N st) None None) (m_Tmax K) (m_fac K) (n_t st)"

definition neutral_apply :: "ext \<Rightarrow> neutral_cfg \<Rightarrow> nstate \<Rightarrow> ctl \<Rightarrow> failure + nstate" where
  "neutral_apply X K st c =
     (let t = n_t st; dt_old = n_dt st; dt = c_dt c; N = c_N c; Neff = c_Neff c
      in bnd (if rebuild_neutral t (n_Nold st) N dt dt_old
              then bnd (build_neutral X K Neff dt) (\<lambda>ops. Inr (Some ops))
              else Inr (n_ops st)) (\<lambda>ops.
         bnd (case ops of None \<Rightarrow> Inl NameError
                        | Some o' \<Rightarrow> advance_neutral X K o' dt (n_sfs st)) (\<lambda>sfs'.
           Inr \<lparr>n_t = t + dt, n_dt = dt, n_sfs = sfs', n_N = N, n_Nold = N, n_Neff = Neff,
                n_ops = ops\<rparr>)))"

definition neutral_step :: "ext \<Rightarrow> neutral_cfg \<Rightarrow> nstate \<Rightarrow> (error + nstate) \<times> event list" where
  "neutral_step X K st =
     (case adapt_sizes X (m_Npop K) (n_t st) (n_Nold st)
             \<lparr>c_dt = neutral_proposal X K st, c_N = n_N st, c_Neff = n_Neff st, c_n_iter = 0\<rparr> of
        (r, ev) \<Rightarrow> (bnd r (\<lambda>c. lift (neutral_apply X K st c)), ev))"

fun neutral_loop ::
  "ext \<Rightarrow> neutral_cfg \<Rightarrow> nat \<Rightarrow> nstate \<Rightarrow> (error + nstate) option \<times> event list" where
  "neutral_loop X K 0 st = (if n_t st < m_Tmax K then (None, []) else (Some (Inr st), []))"
| "neutral_loop X K (Suc fuel) st =
     (if n_t st < m_Tmax K then
        (case neutral_step X K st of
           (Inl e, ev) \<Rightarrow> (Some (Inl e), ev)
         | (Inr st', ev) \<Rightarrow> (let (r, ev') = neutral_loop X K fuel st' in (r, ev @ ev')))
      else (Some (Inr st), []))"

definition prepare_neutral ::
  "ext \<Rightarrow> args \<Rightarrow> frozen_params \<Rightarrow> vec \<Rightarrow> failure + neutral_cfg \<times> nstate" where
  "prepare_neutral X A p N =
     (let dims = shape (sfs0 A); P = length dims;
          Tmax = tf A * 2;
          vd = map (calcD_dense X) dims;
          diags = map (mat_to_diag X) vd
      in bnd (drift_ops N vd P) (\<lambda>D.
         bnd (mutation_term X dims (fp_u p) (fp_v p)) (\<lambda>B.
           Inr (\<lparr>m_Tmax = Tmax, m_fac = dt_fac A, m_Npop = fp_Npop p, m_B = B, m_dims = dims,
                 m_vd = vd, m_diags = diags\<rparr>,
                \<lparr>n_t = 0, n_dt = Tmax * dt_fac A, n_sfs = sfs0 A, n_N = N, n_Nold = N,
                 n_Neff = N, n_ops = None\<rparr>))))"

definition integrate_neutral ::
  "ext \<Rightarrow> args \<Rightarrow> nat \<Rightarrow> (error + spectrum) option \<times> event list" where
  "integrate_neutral X A fuel =
     (let P = length (shape (sfs0 A))
      in case bnd (mutation_rates P A) (\<lambda>(u, v).
                freeze_neutral (frozen A)
                  \<lparr>fp_s = Constant [], fp_Npop = Npop A, fp_u = u, fp_v = v\<rparr>) of
           Inl e \<Rightarrow> (Some (Inl (Failed e)), [])
         | Inr p \<Rightarrow>
             (case initial_sizes (fp_Npop p) of
                (Inl e, ev) \<Rightarrow> (Some (Inl e), ev)
              | (Inr N, ev) \<Rightarrow>
                  (case prepare_neutral X A p N of
                     Inl e \<Rightarrow> (Some (Inl (Failed e)), ev)
                   | Inr (K, st0) \<Rightarrow>
                       (case neutral_loop X K fuel st0 of
                          (None, ev') \<Rightarrow> (None, ev @ ev')
                        | (Some (Inl e), ev') \<Rightarrow> (Some (Inl e), ev @ ev')
                        | (Some (Inr st), ev') \<Rightarrow>
                            (Some (Inr \<lparr>sp_data = n_sfs st,
                                        sp_mask_corners = (\<not> finite_genome A)\<rparr>),
                             ev @ ev')))))"

section \<open>Stand-ins for the collaborators, for concrete runs\<close>

text \<open>
  The integrators call code that lives outside the files modelled here (the drift and
  selection matrix builders, the two linear solvers, the step bound, the effective size).
  The theorems below take these as the parameter \<open>X\<close>. To run the model on concrete
  inputs the following small instance is used: a tridiagonal drift matrix whose columns
  sum to zero, no selection matrices, a direct solver for systems of three unknowns, the
  constant step bound 1 and the two-point harmonic mean as effective size.
\<close>

definition demo_calcD :: "nat \<Rightarrow> matrix" where
  "demo_calcD d =
     map (\<lambda>i. map (\<lambda>j. if 0 < j \<and> j + 1 < d
                         then real (j * (d - 1 - j)) *
                              (if i = j then - 2 else if i + 1 = j \<or> i = j + 1 then 1 else 0)
                         else 0) [0..<d]) [0..<d]"

definition zero_matrix :: "nat \<Rightarrow> matrix" where
  "zero_matrix d = replicate d (replicate d 0)"

definition demo_mutation :: "nat \<Rightarrow> real \<Rightarrow> real \<Rightarrow> matrix" where
  "demo_mutation d u v =
     map (\<lambda>i. map (\<lambda>j. if i = j then - (u * real (d - 1 - j) + v * real j)
                         else if i = j + 1 then u * real (d - 1 - j)
                         else if i + 1 = j then v * real j else 0) [0..<d]) [0..<d]"

definition demo_diagonals :: "matrix \<Rightarrow> vec \<times> vec \<times> vec" where
  "demo_diagonals M =
     (map (\<lambda>i. if i = 0 then 0 else M ! i ! (i - 1)) [0..<length M],
      map (\<lambda>i. M ! i ! i) [0..<length M],
      map (\<lambda>i. if i + 1 < length M then M ! i ! (i + 1) else 0) [0..<length M])"

definition demo_pivots :: "vec \<Rightarrow> vec \<Rightarrow> vec \<Rightarrow> real \<times> real \<times> real" where
  "demo_pivots lo di up =
     (let p0 = di ! 0;
          p1 = di ! 1 - lo ! 1 / p0 * up ! 0;
          p2 = di ! 2 - lo ! 2 / p1 * up ! 1
      in (p0, p1, p2))"

definition demo_tridiag_solve :: tsolve where
  "demo_tridiag_solve lo di up r =
     (case demo_pivots lo di up of
        (p0, p1, p2) \<Rightarrow>
          (let r1 = r ! 1 - lo ! 1 / p0 * r ! 0;
               r2 = r ! 2 - lo ! 2 / p1 * r1;
               x2 = r2 / p2;
               x1 = (r1 - up ! 1 * x2) / p1;
               x0 = (r ! 0 - up ! 0 * x1) / p0
           in [x0, x1, x2]))"

definition demo_factorized :: "matrix \<Rightarrow> solver option" where
  "demo_factorized M =
     (case demo_diagonals M of
        (lo, di, up) \<Rightarrow>
          (case demo_pivots lo di up of
             (p0, p1, p2) \<Rightarrow>
               if length M = 3 \<and> list_all (\<lambda>row. length row = 3) M \<and>
                  M ! 0 ! 2 = 0 \<and> M ! 2 ! 0 = 0 \<and> p0 \<noteq> 0 \<and> p1 \<noteq> 0 \<and> p2 \<noteq> 0
               then Some (demo_tridiag_solve lo di up)
               else None))"

definition demo_N_effective :: "(real \<Rightarrow> vec) \<Rightarrow> real \<Rightarrow> real \<Rightarrow> vec" where
  "demo_N_effective f t0 t1 = map2 (\<lambda>a b. 2 / (1 / a + 1 / b)) (f t0) (f t1)"

definition demo_ext :: ext where
  "demo_ext =
     \<lparr>compute_dt = (\<lambda>N s h. 1),
      compute_N_effective = demo_N_effective,
      calcJK13 = (\<lambda>n. []),
      calcJK23 = (\<lambda>n. []),
      calcD = demo_calcD,
      calcS = (\<lambda>d jk. zero_matrix d),
      calcS2 = (\<lambda>d jk. zero_matrix d),
      factorized = demo_factorized,
      calcB_FB = (\<lambda>dims u v. map (\<lambda>i. demo_mutation (dims ! i) (u ! i) (v ! i)) [0..<length dims]),
      calcD_dense = demo_calcD,
      mat_to_diag = demo_diagonals,
      ts_factor = (\<lambda>lo di up. (lo, di, up)),
      ts_solve = demo_tridiag_solve\<rparr>"

definition demo_sfs :: tensor where
  "demo_sfs = of_vec [0, 1, 0]"

definition demo_args :: args where
  "demo_args =
     \<lparr>sfs0 = demo_sfs, Npop = Constant [1], tf = 1 / 2, dt_fac = 1 / 2, theta = Rate 0,
      finite_genome = False, theta_fd = None, theta_bd = None, frozen = [False]\<rparr>"

definition demo_cfg :: nomig_cfg where
  "demo_cfg =
     \<lparr>k_Tmax = 1, k_fac = 1 / 2, k_Npop = Constant [1], k_s = Constant [0],
      k_h = Constant [1 / 2],
      k_B = Infinite_sites ((zeros [3])\<lparr>entry := (entry (zeros [3]))([1] := 0)\<rparr>),
      k_dims = [3], k_vd = [demo_calcD 3], k_vs = [zero_matrix 3], k_vs2 = [zero_matrix 3]\<rparr>"

definition demo_ops :: "matrix list \<times> solver list" where
  "demo_ops =
     ([[[1, 1 / 16, 0], [0, 7 / 8, 0], [0, 1 / 16, 1]]],
      [demo_tridiag_solve [0, 0, - (1 / 16)] [1, 9 / 8, 1] [- (1 / 16), 0, 0]])"

definition demo_state :: "real \<Rightarrow> vec \<Rightarrow> (matrix list \<times> solver list) option \<Rightarrow> gstate" where
  "demo_state t v ops =
     \<lparr>g_t = t, g_dt = 1 / 2, g_sfs = of_vec v,
      g_N = [1], g_Nold = [1], g_Neff = [1],
      g_s_new = [0], g_s_old = [0], g_h_new = [1 / 2], g_h_old = [1 / 2], g_ops = ops\<rparr>"

text \<open>
  A second run, with sizes given as a function of time that jumps from 1 to 5/4:
  \<open>tf = 3/8\<close> and \<open>dt_fac = 1/3\<close>, so three steps of length 1/4.
\<close>

definition jump_sizes :: "real \<Rightarrow> vec" where
  "jump_sizes x = (if x \<le> 1 / 8 then [1] else [5 / 4])"

definition jump_args :: args where
  "jump_args = demo_args\<lparr>Npop := Varying jump_sizes, tf := 3 / 8, dt_fac := 1 / 3\<rparr>"

definition jump_cfg :: nomig_cfg where
  "jump_cfg = demo_cfg\<lparr>k_Tmax := 3 / 4, k_fac := 1 / 3, k_Npop := Varying jump_sizes\<rparr>"

definition demo_ops_for :: "real \<Rightarrow> matrix list \<times> solver list" where
  "demo_ops_for c =
     ([[[1, c, 0], [0, 1 - 2 * c, 0], [0, c, 1]]],
      [demo_tridiag_solve [0, 0, - c] [1, 1 + 2 * c, 1] [- c, 0, 0]])"

definition jump_state ::
  "real \<Rightarrow> vec \<Rightarrow> vec \<Rightarrow> vec \<Rightarrow> (matrix list \<times> solver list) option \<Rightarrow> gstate" where
  "jump_state t v N Ne ops =
     \<lparr>g_t = t, g_dt = 1 / 4, g_sfs = of_vec v, g_N = N, g_Nold = N, g_Neff = Ne,
      g_s_new = [0], g_s_old = [0], g_h_new = [1 / 2], g_h_old = [1 / 2], g_ops = ops\<rparr>"

section \<open>Properties\<close>

lemma bnd_Inr [simp]: "bnd (Inr x) f = f x"
  by (simp add: bnd_def)

lemma bnd_Inl [simp]: "bnd (Inl e) f = Inl e"
  by (simp add: bnd_def)

lemma unit_index_inj:
  "j < n \<Longrightarrow> k < n \<Longrightarrow> unit_index n j = unit_index n k \<Longrightarrow> j = k"
proof (rule ccontr)
  assume a: "j < n" "k < n" and eq: "unit_index n j = unit_index n k" and ne: "j \<noteq> k"
  have one: "unit_index n j ! j = 1" using a by (simp add: unit_index_def)
  have zero: "unit_index n k ! j = 0" using a ne by (simp add: unit_index_def)
  from one have "unit_index n k ! j = 1" unfolding eq .
  with zero show False by simp
qed

lemma unit_index_in_bounds:
  "k < length dims \<Longrightarrow> \<forall>d\<in>set dims. 2 \<le> d \<Longrightarrow> in_bounds dims (unit_index (length dims) k)"
proof -
  assume k: "k < length dims" and big: "\<forall>d\<in>set dims. 2 \<le> d"
  have "\<And>i. i < length dims \<Longrightarrow> 2 \<le> dims ! i" using big nth_mem by blast
  moreover have "\<And>i. i < length dims \<Longrightarrow> (replicate (length dims) 0)[k := Suc 0] ! i \<le> 1"
    using k by (simp add: nth_list_update)
  ultimately have "\<And>i. i < length dims \<Longrightarrow> (replicate (length dims) 0)[k := Suc 0] ! i < dims ! i"
    by (metis One_nat_def Suc_1 le_imp_less_Suc less_le_trans)
  then show ?thesis
    unfolding in_bounds_def unit_index_def list_all2_conv_all_nth by simp
qed

lemma calcB_loop:
  assumes "length u = length dims" and "\<forall>d\<in>set dims. 2 \<le> d"
    and "set ks \<subseteq> {..<length dims}" and "distinct ks" and "shape B = dims"
  shows "\<exists>B'. foldE (calcB_body dims u) ks B = Inr B' \<and> shape B' = dims \<and>
           (\<forall>k\<in>set ks. entry B' (unit_index (length dims) k) = (real (dims ! k) - 1) * u ! k) \<and>
           (\<forall>idx. (\<forall>k\<in>set ks. idx \<noteq> unit_index (length dims) k) \<longrightarrow> entry B' idx = entry B idx)"
  using assms(3-5)
proof (induction ks arbitrary: B)
  case Nil
  then show ?case by simp
next
  case (Cons k ks)
  let ?n = "length dims"
  let ?B1 = "B\<lparr>entry := (entry B)(unit_index ?n k := (real (dims ! k) - 1) * u ! k)\<rparr>"
  have k: "k < ?n" using Cons.prems by simp
  have step: "calcB_body dims u k B = Inr ?B1"
    using k assms(1,2) Cons.prems unit_index_in_bounds[OF k assms(2)]
    by (simp add: calcB_body_def item_def setitem_def)
  have "set ks \<subseteq> {..<?n}" "distinct ks" "shape ?B1 = dims"
    using Cons.prems by auto
  from Cons.IH[OF this] obtain B' where B':
    "foldE (calcB_body dims u) ks ?B1 = Inr B'" "shape B' = dims"
    "\<forall>j\<in>set ks. entry B' (unit_index ?n j) = (real (dims ! j) - 1) * u ! j"
    "\<forall>idx. (\<forall>j\<in>set ks. idx \<noteq> unit_index ?n j) \<longrightarrow> entry B' idx = entry ?B1 idx"
    by blast
  have notin: "\<forall>j\<in>set ks. unit_index ?n k \<noteq> unit_index ?n j"
    using Cons.prems k unit_index_inj[of k ?n] by (metis distinct.simps(2) lessThan_iff list.set_intros(2) subsetD)
  have "entry B' (unit_index ?n k) = (real (dims ! k) - 1) * u ! k"
    using B'(4) notin by simp
  then show ?case using B' step by auto
qed

text \<open>
  Claim C8. For a shape vector \<open>dims\<close> with every entry at least 2 and a rate vector
  \<open>u\<close> of the same length, \<open>_calcB dims u\<close> returns a tensor of shape \<open>dims\<close> whose
  entry at the index with 1 on axis \<open>k\<close> and 0 elsewhere is \<open>(dims[k] - 1) * u[k]\<close>,
  and whose every other entry is zero.
\<close>

theorem calcB_singleton_bins:
  assumes "length u = length dims" and "\<forall>d\<in>set dims. 2 \<le> d"
  shows "\<exists>B. calcB dims u = Inr B \<and> shape B = dims \<and>
           (\<forall>k<length dims. entry B (unit_index (length dims) k) = (real (dims ! k) - 1) * u ! k) \<and>
           (\<forall>idx. (\<forall>k<length dims. idx \<noteq> unit_index (length dims) k) \<longrightarrow> entry B idx = 0)"
proof -
  have "set [0..<length dims] \<subseteq> {..<length dims}" "distinct [0..<length dims]"
    "shape (zeros dims) = dims" by (auto simp: zeros_def)
  from calcB_loop[OF assms this] show ?thesis
    unfolding calcB_def by (auto simp: zeros_def)
qed

lemma eye_nth: "i < d \<Longrightarrow> k < d \<Longrightarrow> eye d ! i ! k = (if i = k then 1 else 0)"
  by (simp add: eye_def)

lemma sum_list_delta:
  assumes "i < d"
  shows "(\<Sum>k\<leftarrow>[0..<d]. eye d ! i ! k * f k) = f i"
proof -
  have "(\<Sum>k\<leftarrow>[0..<d]. eye d ! i ! k * f k) = (\<Sum>k\<in>{0..<d}. eye d ! i ! k * f k)"
    by (simp add: interv_sum_list_conv_sum_set_nat)
  also have "\<dots> = (\<Sum>k\<in>{0..<d}. if k = i then f k else 0)"
    using assms by (intro sum.cong) (auto simp: eye_nth)
  also have "\<dots> = f i" using assms by simp
  finally show ?thesis .
qed

lemma dot_eye:
  assumes "shape T = d # ds"
  shows "\<exists>T'. dot (eye d) T = Inr T' \<and> shape T' = d # ds \<and>
           (\<forall>i<d. \<forall>rest. entry T' (i # rest) = entry T (i # rest))"
  using assms by (simp add: dot_def sum_list_delta list_all_iff) (simp add: eye_def)

text \<open>
  Claim C9. For a two-dimensional tensor of shape \<open>(d0, d1)\<close>, the explicit splitting
  driver \<open>_update_step1\<close> called with the identity matrix on both axes returns a tensor
  of the same shape with every entry unchanged.
\<close>

theorem update_step1_identity_2d:
  assumes "shape sfs = [d0, d1]"
  shows "\<exists>T. update_step1 sfs [eye d0, eye d1] = Inr T \<and> shape T = shape sfs \<and>
           (\<forall>i<d0. \<forall>j<d1. entry T [i, j] = entry sfs [i, j])"
proof -
  from dot_eye[OF assms] obtain T1 where T1:
    "dot (eye d0) sfs = Inr T1" "shape T1 = [d0, d1]"
    "\<forall>i<d0. \<forall>rest. entry T1 (i # rest) = entry sfs (i # rest)" by blast
  have sh: "shape (transpose_rev T1) = [d1, d0]" using T1 by (simp add: transpose_rev_def)
  from dot_eye[OF sh] obtain T2 where T2:
    "dot (eye d1) (transpose_rev T1) = Inr T2" "shape T2 = [d1, d0]"
    "\<forall>j<d1. \<forall>rest. entry T2 (j # rest) = entry (transpose_rev T1) (j # rest)" by blast
  have one: "ud1_2pop_1 sfs [eye d0, eye d1] = Inr T1"
    using T1 by (simp add: ud1_2pop_1_def item_def)
  have two: "ud1_2pop_2 T1 [eye d0, eye d1] = Inr (transpose_rev T2)"
    using T2 by (simp add: ud1_2pop_2_def item_def)
  have "[0..<length (shape sfs)] = [0, 1]" using assms by (simp add: upt_rec)
  then have run: "update_step1 sfs [eye d0, eye d1] = Inr (transpose_rev T2)"
    using assms one two T1 by (simp add: update_step1_def ud1_named_def)
  have "shape (transpose_rev T2) = shape sfs" using T2 assms by (simp add: transpose_rev_def)
  moreover have "\<forall>i<d0. \<forall>j<d1. entry (transpose_rev T2) [i, j] = entry sfs [i, j]"
    using T1 T2 by (simp add: transpose_rev_def)
  ultimately show ?thesis using run by blast
qed

theorem update_step1_identity_2d_witness:
  "\<exists>T. update_step1 \<lparr>shape = [2, 3], entry = (\<lambda>idx. real (ravel [2, 3] idx) + 1)\<rparr> [eye 2, eye 3] = Inr T
      \<and> shape T = [2, 3] \<and> entry T [1, 2] = 6 \<and> entry T [0, 1] = 2"
  using update_step1_identity_2d[of "\<lparr>shape = [2, 3], entry = (\<lambda>idx. real (ravel [2, 3] idx) + 1)\<rparr>" 2 3]
  by auto

theorem calcB_singleton_bins_witness:
  "\<exists>B. calcB [3, 2] [1 / 4, 1 / 2] = Inr B \<and> shape B = [3, 2] \<and>
       entry B [1, 0] = 1 / 2 \<and> entry B [0, 1] = 1 / 2 \<and> entry B [2, 1] = 0"
proof -
  have h: "length [1 / 4, 1 / 2 :: real] = length [3, 2 :: nat]" "\<forall>d\<in>set [3, 2 :: nat]. 2 \<le> d"
    by simp_all
  from calcB_singleton_bins[OF h] obtain B where B:
    "calcB [3, 2] [1 / 4, 1 / 2] = Inr B" "shape B = [3, 2]"
    "\<forall>k<length [3, 2 :: nat]. entry B (unit_index (length [3, 2 :: nat]) k)
        = (real ([3, 2] ! k) - 1) * [1 / 4, 1 / 2] ! k"
    "\<forall>idx. (\<forall>k<length [3, 2 :: nat]. idx \<noteq> unit_index (length [3, 2 :: nat]) k)
        \<longrightarrow> entry B idx = 0"
    by blast
  have u0: "unit_index (length [3, 2 :: nat]) 0 = [1, 0]"
    and u1: "unit_index (length [3, 2 :: nat]) 1 = [0, 1]"
    by (simp_all add: unit_index_def)
  have "entry B [1, 0] = 1 / 2" using B(3)[rule_format, of 0] u0 by simp
  moreover have "entry B [0, 1] = 1 / 2" using B(3)[rule_format, of 1] u1 by simp
  moreover have "\<forall>k<length [3, 2 :: nat]. [2, 1] \<noteq> unit_index (length [3, 2 :: nat]) k"
    by (auto simp: unit_index_def less_Suc_eq)
  then have "entry B [2, 1] = 0" using B(4) by blast
  ultimately show ?thesis using B(1,2) by blast
qed

lemma assign_all_spec:
  "set pops \<subseteq> {..<length x} \<Longrightarrow>
   \<exists>x'. assign_all pops c x = Inr x' \<and> length x' = length x \<and>
        (\<forall>i<length x. x' ! i = (if i \<in> set pops then c else x ! i))"
proof (induction pops arbitrary: x)
  case Nil
  then show ?case by (simp add: assign_all_def)
next
  case (Cons p ps)
  have p: "p < length x" using Cons.prems by simp
  have "set ps \<subseteq> {..<length (x[p := c])}" using Cons.prems by simp
  from Cons.IH[OF this] obtain x' where x':
    "assign_all ps c (x[p := c]) = Inr x'" "length x' = length x"
    "\<forall>i<length x. x' ! i = (if i \<in> set ps then c else x[p := c] ! i)"
    by auto
  have "assign_all (p # ps) c x = Inr x'"
    using p x'(1) by (simp add: assign_all_def)
  moreover have "\<forall>i<length x. x' ! i = (if i \<in> set (p # ps) then c else x ! i)"
    using x'(3) p by (auto simp: nth_list_update)
  ultimately show ?case using x'(2) by blast
qed

lemma set_frozen_pops: "set (frozen_pops fr) = {i. i < length fr \<and> fr ! i}"
  by (auto simp: frozen_pops_def)

lemma freeze_sizes_spec:
  assumes "\<forall>t. length (at_time Np t) = length fr"
  shows "\<exists>Np'. freeze_sizes fr Np = Inr Np' \<and>
           (\<forall>t. length (at_time Np' t) = length fr) \<and>
           (\<forall>t. \<forall>i<length fr. at_time Np' t ! i = (if fr ! i then 10 ^ 40 else at_time Np t ! i))"
proof (cases Np)
  case (Constant nv)
  have len: "length nv = length fr" using assms Constant by (simp add: at_time_def)
  then have "set (frozen_pops fr) \<subseteq> {..<length nv}" by (auto simp: set_frozen_pops)
  from assign_all_spec[OF this, of "10 ^ 40"] obtain v where v:
    "assign_all (frozen_pops fr) (10 ^ 40) nv = Inr v" "length v = length nv"
    "\<forall>i<length nv. v ! i = (if i \<in> set (frozen_pops fr) then 10 ^ 40 else nv ! i)" by blast
  have "freeze_sizes fr Np = Inr (Constant v)"
    using Constant v(1) by (simp add: freeze_sizes_def)
  then show ?thesis using v(2,3) len Constant
    by (auto simp: at_time_def set_frozen_pops)
next
  case (Varying f)
  have len: "\<And>t. length (f t) = length fr" using assms Varying by (simp add: at_time_def)
  show ?thesis using Varying len
    by (auto simp: freeze_sizes_def at_time_def unfrozen_def as01_def)
qed

lemma freeze_selection_spec:
  assumes "\<forall>t. length (at_time s t) = length fr"
  shows "\<exists>s'. freeze_selection fr s = Inr s' \<and>
           (\<forall>t. length (at_time s' t) = length fr) \<and>
           (\<forall>t. \<forall>i<length fr. at_time s' t ! i = (if fr ! i then 0 else at_time s t ! i))"
proof (cases s)
  case (Constant sv)
  have len: "length sv = length fr" using assms Constant by (simp add: at_time_def)
  then have "set (frozen_pops fr) \<subseteq> {..<length sv}" by (auto simp: set_frozen_pops)
  from assign_all_spec[OF this, of 0] obtain v where v:
    "assign_all (frozen_pops fr) 0 sv = Inr v" "length v = length sv"
    "\<forall>i<length sv. v ! i = (if i \<in> set (frozen_pops fr) then 0 else sv ! i)" by blast
  have "freeze_selection fr s = Inr (Constant v)"
    using Constant v(1) by (simp add: freeze_selection_def)
  then show ?thesis using v(2,3) len Constant
    by (auto simp: at_time_def set_frozen_pops)
next
  case (Varying f)
  have len: "\<And>t. length (f t) = length fr" using assms Varying by (simp add: at_time_def)
  show ?thesis using Varying len
    by (auto simp: freeze_selection_def at_time_def unfrozen_def)
qed

lemma mask_rates_spec:
  assumes "length u = length fr"
  shows "\<exists>u'. mask_rates fr u = Inr u' \<and> length u' = length fr \<and>
           (\<forall>i<length fr. u' ! i = (if fr ! i then 0 else u ! i))"
  using assms by (auto simp: mask_rates_def unfrozen_def)

lemma mask_rates_opt_spec:
  assumes "\<forall>w. v = Some w \<longrightarrow> length w = length fr"
  shows "\<exists>v'. mask_rates_opt fr v = Inr v' \<and> (v' = None \<longleftrightarrow> v = None) \<and>
           (\<forall>w w'. v = Some w \<longrightarrow> v' = Some w' \<longrightarrow> length w' = length fr \<and>
              (\<forall>i<length fr. w' ! i = (if fr ! i then 0 else w ! i)))"
proof (cases v)
  case None
  then show ?thesis by (simp add: mask_rates_opt_def)
next
  case (Some w)
  then have "length w = length fr" using assms by simp
  from mask_rates_spec[OF this] obtain w' where
    "mask_rates fr w = Inr w'" "length w' = length fr"
    "\<forall>i<length fr. w' ! i = (if fr ! i then 0 else w ! i)" by blast
  then show ?thesis using Some by (simp add: mask_rates_opt_def)
qed


lemma freeze_nomig_spec:
  assumes "length (fp_u p) = length fr"
    and "\<forall>w. fp_v p = Some w \<longrightarrow> length w = length fr"
    and "\<forall>t. length (at_time (fp_s p) t) = length fr"
    and "\<forall>t. length (at_time (fp_Npop p) t) = length fr"
  shows "\<exists>q. freeze_nomig fr p = Inr q \<and> (fp_v q = None \<longleftrightarrow> fp_v p = None) \<and>
           (\<forall>i<length fr. \<forall>t.
              at_time (fp_Npop q) t ! i = (if fr ! i then 10 ^ 40 else at_time (fp_Npop p) t ! i) \<and>
              at_time (fp_s q) t ! i = (if fr ! i then 0 else at_time (fp_s p) t ! i) \<and>
              fp_u q ! i = (if fr ! i then 0 else fp_u p ! i) \<and>
              (\<forall>w w'. fp_v p = Some w \<longrightarrow> fp_v q = Some w' \<longrightarrow>
                 w' ! i = (if fr ! i then 0 else w ! i)))"
proof (cases "list_ex (\<lambda>f. f) fr")
  case False
  then have none: "\<And>i. i < length fr \<Longrightarrow> \<not> fr ! i" by (simp add: list_ex_length)
  have run: "freeze_nomig fr p = Inr p" using False by (simp add: freeze_nomig_def)
  show ?thesis
  proof (intro exI[of _ p] conjI allI impI)
    show "freeze_nomig fr p = Inr p" by (rule run)
  next
    fix i t assume "i < length fr"
    then show "at_time (fp_Npop p) t ! i = (if fr ! i then 10 ^ 40 else at_time (fp_Npop p) t ! i)"
      using none by simp
  next
    fix i t assume "i < length fr"
    then show "at_time (fp_s p) t ! i = (if fr ! i then 0 else at_time (fp_s p) t ! i)"
      using none by simp
  next
    fix i t assume "i < length fr"
    then show "fp_u p ! i = (if fr ! i then 0 else fp_u p ! i)"
      using none by simp
  next
    fix i t w w' assume "i < length fr" "fp_v p = Some w" "fp_v p = Some w'"
    then show "w' ! i = (if fr ! i then 0 else w ! i)"
      using none by simp
  qed simp
next
  case True
  from freeze_selection_spec[OF assms(3)] obtain s' where s'0:
    "freeze_selection fr (fp_s p) = Inr s' \<and>
     (\<forall>t. length (at_time s' t) = length fr) \<and>
     (\<forall>t. \<forall>i<length fr. at_time s' t ! i = (if fr ! i then 0 else at_time (fp_s p) t ! i))" ..
  note s' = s'0[THEN conjunct1] s'0[THEN conjunct2, THEN conjunct2]
  from freeze_sizes_spec[OF assms(4)] obtain N' where N'0:
    "freeze_sizes fr (fp_Npop p) = Inr N' \<and>
     (\<forall>t. length (at_time N' t) = length fr) \<and>
     (\<forall>t. \<forall>i<length fr. at_time N' t ! i = (if fr ! i then 10 ^ 40 else at_time (fp_Npop p) t ! i))" ..
  note N' = N'0[THEN conjunct1] N'0[THEN conjunct2, THEN conjunct2]
  from mask_rates_spec[OF assms(1)] obtain u' where u'0:
    "mask_rates fr (fp_u p) = Inr u' \<and> length u' = length fr \<and>
     (\<forall>i<length fr. u' ! i = (if fr ! i then 0 else fp_u p ! i))" ..
  note u' = u'0[THEN conjunct1] u'0[THEN conjunct2, THEN conjunct2]
  from mask_rates_opt_spec[OF assms(2)] obtain v' where v'0:
    "mask_rates_opt fr (fp_v p) = Inr v' \<and> (v' = None \<longleftrightarrow> fp_v p = None) \<and>
     (\<forall>w w'. fp_v p = Some w \<longrightarrow> v' = Some w' \<longrightarrow>
       length w' = length fr \<and> (\<forall>i<length fr. w' ! i = (if fr ! i then 0 else w ! i)))" ..
  note v' = v'0[THEN conjunct1] v'0[THEN conjunct2, THEN conjunct1] v'0[THEN conjunct2, THEN conjunct2]
  let ?q = "\<lparr>fp_s = s', fp_Npop = N', fp_u = u', fp_v = v'\<rparr>"
  have run: "freeze_nomig fr p = Inr ?q"
    using True s'(1) N'(1) u'(1) v'(1) by (simp add: freeze_nomig_def)
  show ?thesis
  proof (intro exI[of _ ?q] conjI allI impI)
    show "freeze_nomig fr p = Inr ?q" by (rule run)
    show "(fp_v ?q = None) = (fp_v p = None)" using v'(2) by simp
  next
    fix i t assume "i < length fr"
    then show "at_time (fp_Npop ?q) t ! i = (if fr ! i then 10 ^ 40 else at_time (fp_Npop p) t ! i)"
      using N'(2) by simp
  next
    fix i t assume "i < length fr"
    then show "at_time (fp_s ?q) t ! i = (if fr ! i then 0 else at_time (fp_s p) t ! i)"
      using s'(2) by simp
  next
    fix i t assume "i < length fr"
    then show "fp_u ?q ! i = (if fr ! i then 0 else fp_u p ! i)"
      using u'(2) by simp
  next
    fix i t w w' assume "i < length fr" "fp_v p = Some w" "fp_v ?q = Some w'"
    then show "w' ! i = (if fr ! i then 0 else w ! i)"
      using v'(3) by simp
  qed
qed

lemma freeze_neutral_spec:
  assumes "length (fp_u p) = length fr"
    and "\<forall>w. fp_v p = Some w \<longrightarrow> length w = length fr"
    and "\<forall>t. length (at_time (fp_Npop p) t) = length fr"
  shows "\<exists>q. freeze_neutral fr p = Inr q \<and> (fp_v q = None \<longleftrightarrow> fp_v p = None) \<and>
           (\<forall>i<length fr. \<forall>t.
              at_time (fp_Npop q) t ! i = (if fr ! i then 10 ^ 40 else at_time (fp_Npop p) t ! i) \<and>
              fp_u q ! i = (if fr ! i then 0 else fp_u p ! i) \<and>
              (\<forall>w w'. fp_v p = Some w \<longrightarrow> fp_v q = Some w' \<longrightarrow>
                 w' ! i = (if fr ! i then 0 else w ! i)))"
proof (cases "list_ex (\<lambda>f. f) fr")
  case False
  then have none: "\<And>i. i < length fr \<Longrightarrow> \<not> fr ! i" by (simp add: list_ex_length)
  have run: "freeze_neutral fr p = Inr p" using False by (simp add: freeze_neutral_def)
  show ?thesis
  proof (intro exI[of _ p] conjI allI impI)
    show "freeze_neutral fr p = Inr p" by (rule run)
  next
    fix i t assume "i < length fr"
    then show "at_time (fp_Npop p) t ! i = (if fr ! i then 10 ^ 40 else at_time (fp_Npop p) t ! i)"
      using none by simp
  next
    fix i t assume "i < length fr"
    then show "fp_u p ! i = (if fr ! i then 0 else fp_u p ! i)"
      using none by simp
  next
    fix i t w w' assume "i < length fr" "fp_v p = Some w" "fp_v p = Some w'"
    then show "w' ! i = (if fr ! i then 0 else w ! i)"
      using none by simp
  qed simp
next
  case True
  from freeze_sizes_spec[OF assms(3)] obtain N' where N'0:
    "freeze_sizes fr (fp_Npop p) = Inr N' \<and>
     (\<forall>t. length (at_time N' t) = length fr) \<and>
     (\<forall>t. \<forall>i<length fr. at_time N' t ! i = (if fr ! i then 10 ^ 40 else at_time (fp_Npop p) t ! i))" ..
  note N' = N'0[THEN conjunct1] N'0[THEN conjunct2, THEN conjunct2]
  from mask_rates_spec[OF assms(1)] obtain u' where u'0:
    "mask_rates fr (fp_u p) = Inr u' \<and> length u' = length fr \<and>
     (\<forall>i<length fr. u' ! i = (if fr ! i then 0 else fp_u p ! i))" ..
  note u' = u'0[THEN conjunct1] u'0[THEN conjunct2, THEN conjunct2]
  from mask_rates_opt_spec[OF assms(2)] obtain v' where v'0:
    "mask_rates_opt fr (fp_v p) = Inr v' \<and> (v' = None \<longleftrightarrow> fp_v p = None) \<and>
     (\<forall>w w'. fp_v p = Some w \<longrightarrow> v' = Some w' \<longrightarrow>
       length w' = length fr \<and> (\<forall>i<length fr. w' ! i = (if fr ! i then 0 else w ! i)))" ..
  note v' = v'0[THEN conjunct1] v'0[THEN conjunct2, THEN conjunct1] v'0[THEN conjunct2, THEN conjunct2]
  let ?q = "\<lparr>fp_s = fp_s p, fp_Npop = N', fp_u = u', fp_v = v'\<rparr>"
  have run: "freeze_neutral fr p = Inr ?q"
    using True N'(1) u'(1) v'(1) by (simp add: freeze_neutral_def)
  show ?thesis
  proof (intro exI[of _ ?q] conjI allI impI)
    show "freeze_neutral fr p = Inr ?q" by (rule run)
    show "(fp_v ?q = None) = (fp_v p = None)" using v'(2) by simp
  next
    fix i t assume "i < length fr"
    then show "at_time (fp_Npop ?q) t ! i = (if fr ! i then 10 ^ 40 else at_time (fp_Npop p) t ! i)"
      using N'(2) by simp
  next
    fix i t assume "i < length fr"
    then show "fp_u ?q ! i = (if fr ! i then 0 else fp_u p ! i)"
      using u'(2) by simp
  next
    fix i t w w' assume "i < length fr" "fp_v p = Some w" "fp_v ?q = Some w'"
    then show "w' ! i = (if fr ! i then 0 else w ! i)"
      using v'(3) by simp
  qed
qed

text \<open>
  Claim C7. With one flag per population, both integrators force the size of every frozen
  population to \<open>1e40\<close> (at every time, for a constant vector as for a callable), its
  mutation rates \<open>u\<close> and \<open>v\<close> to zero, and (\<open>integrate_nomig\<close>) its selection
  coefficient to zero; the parameters of every other population are unchanged.
\<close>

theorem frozen_populations_forced:
  assumes "length (fp_u p) = length fr"
    and "\<forall>w. fp_v p = Some w \<longrightarrow> length w = length fr"
    and "\<forall>t. length (at_time (fp_s p) t) = length fr"
    and "\<forall>t. length (at_time (fp_Npop p) t) = length fr"
  shows "(\<exists>q. freeze_nomig fr p = Inr q \<and> (fp_v q = None \<longleftrightarrow> fp_v p = None) \<and>
           (\<forall>i<length fr. \<forall>t.
              at_time (fp_Npop q) t ! i = (if fr ! i then 10 ^ 40 else at_time (fp_Npop p) t ! i) \<and>
              at_time (fp_s q) t ! i = (if fr ! i then 0 else at_time (fp_s p) t ! i) \<and>
              fp_u q ! i = (if fr ! i then 0 else fp_u p ! i) \<and>
              (\<forall>w w'. fp_v p = Some w \<longrightarrow> fp_v q = Some w' \<longrightarrow>
                 w' ! i = (if fr ! i then 0 else w ! i)))) \<and>
         (\<exists>r. freeze_neutral fr p = Inr r \<and> (fp_v r = None \<longleftrightarrow> fp_v p = None) \<and>
           (\<forall>i<length fr. \<forall>t.
              at_time (fp_Npop r) t ! i = (if fr ! i then 10 ^ 40 else at_time (fp_Npop p) t ! i) \<and>
              fp_u r ! i = (if fr ! i then 0 else fp_u p ! i) \<and>
              (\<forall>w w'. fp_v p = Some w \<longrightarrow> fp_v r = Some w' \<longrightarrow>
                 w' ! i = (if fr ! i then 0 else w ! i))))"
  by (rule conjI[OF freeze_nomig_spec[OF assms] freeze_neutral_spec[OF assms(1,2,4)]])

theorem frozen_populations_forced_witness:
  "(\<exists>q. freeze_nomig [True, False]
            \<lparr>fp_s = Constant [1, 1 / 2], fp_Npop = Varying (\<lambda>t. [2 + t, 3]),
             fp_u = [1 / 4, 1 / 4], fp_v = None\<rparr> = Inr q \<and>
         at_time (fp_Npop q) 7 ! 0 = 10 ^ 40 \<and> at_time (fp_Npop q) 7 ! 1 = 3 \<and>
         at_time (fp_s q) 7 ! 0 = 0 \<and> at_time (fp_s q) 7 ! 1 = 1 / 2 \<and>
         fp_u q ! 0 = 0 \<and> fp_u q ! 1 = 1 / 4) \<and>
   (\<exists>r. freeze_neutral [True, False]
            \<lparr>fp_s = Constant [1, 1 / 2], fp_Npop = Varying (\<lambda>t. [2 + t, 3]),
             fp_u = [1 / 4, 1 / 4], fp_v = None\<rparr> = Inr r \<and>
         at_time (fp_Npop r) 7 ! 0 = 10 ^ 40 \<and> at_time (fp_Npop r) 7 ! 1 = 3 \<and>
         fp_u r ! 0 = 0 \<and> fp_u r ! 1 = 1 / 4)"
proof -
  let ?p = "\<lparr>fp_s = Constant [1, 1 / 2], fp_Npop = Varying (\<lambda>t. [2 + t, 3]),
             fp_u = [1 / 4, 1 / 4], fp_v = None\<rparr>"
  let ?fr = "[True, False]"
  have h: "length (fp_u ?p) = length ?fr"
    "\<forall>w. fp_v ?p = Some w \<longrightarrow> length w = length ?fr"
    "\<forall>t. length (at_time (fp_s ?p) t) = length ?fr"
    "\<forall>t. length (at_time (fp_Npop ?p) t) = length ?fr"
    by (simp_all add: at_time_def)
  note both = frozen_populations_forced[OF h]
  have i0: "0 < length ?fr" and i1: "1 < length ?fr" by simp_all
  from both[THEN conjunct1] obtain q where q0:
    "freeze_nomig ?fr ?p = Inr q \<and> (fp_v q = None \<longleftrightarrow> fp_v ?p = None) \<and>
       (\<forall>i<length ?fr. \<forall>t.
          at_time (fp_Npop q) t ! i = (if ?fr ! i then 10 ^ 40 else at_time (fp_Npop ?p) t ! i) \<and>
          at_time (fp_s q) t ! i = (if ?fr ! i then 0 else at_time (fp_s ?p) t ! i) \<and>
          fp_u q ! i = (if ?fr ! i then 0 else fp_u ?p ! i) \<and>
          (\<forall>w w'. fp_v ?p = Some w \<longrightarrow> fp_v q = Some w' \<longrightarrow>
             w' ! i = (if ?fr ! i then 0 else w ! i)))" ..
  note qs = q0[THEN conjunct2, THEN conjunct2, rule_format]
  have A: "\<exists>q. freeze_nomig ?fr ?p = Inr q \<and>
         at_time (fp_Npop q) 7 ! 0 = 10 ^ 40 \<and> at_time (fp_Npop q) 7 ! 1 = 3 \<and>
         at_time (fp_s q) 7 ! 0 = 0 \<and> at_time (fp_s q) 7 ! 1 = 1 / 2 \<and>
         fp_u q ! 0 = 0 \<and> fp_u q ! 1 = 1 / 4"
    apply (rule exI[of _ q])
    using q0[THEN conjunct1] qs[OF i0, of 7] qs[OF i1, of 7]
    by (simp add: at_time_def)
  from both[THEN conjunct2] obtain r where r0:
    "freeze_neutral ?fr ?p = Inr r \<and> (fp_v r = None \<longleftrightarrow> fp_v ?p = None) \<and>
       (\<forall>i<length ?fr. \<forall>t.
          at_time (fp_Npop r) t ! i = (if ?fr ! i then 10 ^ 40 else at_time (fp_Npop ?p) t ! i) \<and>
          fp_u r ! i = (if ?fr ! i then 0 else fp_u ?p ! i) \<and>
          (\<forall>w w'. fp_v ?p = Some w \<longrightarrow> fp_v r = Some w' \<longrightarrow>
             w' ! i = (if ?fr ! i then 0 else w ! i)))" ..
  note rs = r0[THEN conjunct2, THEN conjunct2, rule_format]
  have B: "\<exists>r. freeze_neutral ?fr ?p = Inr r \<and>
         at_time (fp_Npop r) 7 ! 0 = 10 ^ 40 \<and> at_time (fp_Npop r) 7 ! 1 = 3 \<and>
         fp_u r ! 0 = 0 \<and> fp_u r ! 1 = 1 / 4"
    apply (rule exI[of _ r])
    using r0[THEN conjunct1] rs[OF i0, of 7] rs[OF i1, of 7]
    by (simp add: at_time_def)
  from A B show ?thesis by (rule conjI)
qed

declare size_retry.simps [simp del]

lemma size_retry_unfold:
  "size_retry X f t Nold c =
     (case max_rel_change (c_N c) Nold of
        Inl e \<Rightarrow> (Inl (Failed e), [])
      | Inr change \<Rightarrow>
          if change > 1 / 2 then
            (if any_nonpos (c_N (halved X f t c))
             then (Inl NonPositiveSize, [Evaluated (c_N (halved X f t c))])
             else if c_n_iter (halved X f t c) \<ge> 10
               then (case max_rel_change (c_N (halved X f t c)) Nold of
                       Inl e \<Rightarrow> (Inl (Failed e), [Evaluated (c_N (halved X f t c))])
                     | Inr change' \<Rightarrow>
                         (Inr (halved X f t c),
                          [Evaluated (c_N (halved X f t c)),
                           Warned t Nold (c_N (halved X f t c)) change']))
               else (case size_retry X f t Nold (halved X f t c) of
                       (r, ev) \<Rightarrow> (r, Evaluated (c_N (halved X f t c)) # ev)))
          else (Inr c, []))"
  by (subst size_retry.simps) (simp add: halved_def Let_def split: sum.splits)

lemma all_positive_simps [simp]:
  "all_positive []"
  "all_positive (e # ev) = (positive_event e \<and> all_positive ev)"
  by (simp_all add: all_positive_def)

lemma stopped_single [simp]: "stopped_at_nonpositive [e] = (\<not> positive_event e)"
  by (simp add: stopped_at_nonpositive_def)

lemma stopped_Cons:
  "positive_event e \<Longrightarrow> stopped_at_nonpositive (e # ev) = stopped_at_nonpositive ev"
  by (cases ev) (auto simp: stopped_at_nonpositive_def)

lemma not_stopped_Nil [simp]: "\<not> stopped_at_nonpositive []"
  by (simp add: stopped_at_nonpositive_def)

lemma size_retry_events:
  "size_retry X f t Nold c = (r, ev) \<Longrightarrow>
     (r = Inl NonPositiveSize \<and> stopped_at_nonpositive ev) \<or>
     (r \<noteq> Inl NonPositiveSize \<and> all_positive ev)"
proof (induction c arbitrary: r ev rule: measure_induct_rule[of "\<lambda>c. 10 - c_n_iter c"])
  case (less c)
  let ?c' = "halved X f t c"
  show ?case
  proof (cases "max_rel_change (c_N c) Nold")
    case (Inl e)
    then have "r = Inl (Failed e)" "ev = []" using less.prems by (simp_all add: size_retry_unfold)
    then show ?thesis by simp
  next
    case (Inr change)
    show ?thesis
    proof (cases "change > 1 / 2")
      case False
      then have "r = Inr c" "ev = []" using less.prems Inr by (simp_all add: size_retry_unfold)
      then show ?thesis by simp
    next
      case big: True
      show ?thesis
      proof (cases "any_nonpos (c_N ?c')")
        case True
        then have "r = Inl NonPositiveSize" "ev = [Evaluated (c_N ?c')]"
          using less.prems Inr big by (simp_all add: size_retry_unfold)
        then show ?thesis using True by simp
      next
        case pos: False
        show ?thesis
        proof (cases "c_n_iter ?c' \<ge> 10")
          case True
          show ?thesis
          proof (cases "max_rel_change (c_N ?c') Nold")
            case (Inl e)
            then have "r = Inl (Failed e)" "ev = [Evaluated (c_N ?c')]"
              using less.prems Inr big pos True by (simp_all add: size_retry_unfold)
            then show ?thesis using pos by simp
          next
            case (Inr change')
            then have "r = Inr ?c'" "ev = [Evaluated (c_N ?c'), Warned t Nold (c_N ?c') change']"
              using less.prems \<open>max_rel_change (c_N c) Nold = Inr change\<close> big pos True
              by (simp_all add: size_retry_unfold)
            then show ?thesis using pos by simp
          qed
        next
          case False
          obtain r' ev' where rec: "size_retry X f t Nold ?c' = (r', ev')"
            by (cases "size_retry X f t Nold ?c'")
          have "r = r'" "ev = Evaluated (c_N ?c') # ev'"
            using less.prems Inr big pos False rec by (simp_all add: size_retry_unfold)
          moreover have "10 - c_n_iter ?c' < 10 - c_n_iter c"
            using False by (simp add: halved_def)
          note less.IH[OF this rec]
          ultimately show ?thesis using pos by (auto simp: stopped_Cons)
        qed
      qed
    qed
  qed
qed


lemma halved_simps [simp]:
  "c_dt (halved X f t c) = c_dt c / 2"
  "c_n_iter (halved X f t c) = Suc (c_n_iter c)"
  "c_N (halved X f t c) = f ((t + c_dt c / 2) / 2)"
  "c_Neff (halved X f t c) = compute_N_effective X f (t / 2) ((t + c_dt c / 2) / 2)"
  by (simp_all add: halved_def)

lemma evaluations_simps [simp]:
  "evaluations [] = 0"
  "evaluations (Evaluated N # ev) = Suc (evaluations ev)"
  "evaluations (Warned a b c d # ev) = evaluations ev"
  by (simp_all add: evaluations_def)

lemma size_retry_result:
  assumes "size_retry X f t Nold c = (Inr c', ev)" and "c_n_iter c < 10"
  shows "c_n_iter c \<le> c_n_iter c' \<and> c_n_iter c' \<le> 10 \<and>
         c_dt c' = c_dt c / 2 ^ (c_n_iter c' - c_n_iter c) \<and>
         evaluations ev = c_n_iter c' - c_n_iter c \<and>
         (list_ex is_warning ev \<longleftrightarrow> c_n_iter c' = 10) \<and>
         (c_n_iter c' < 10 \<longrightarrow> (\<exists>\<rho>. max_rel_change (c_N c') Nold = Inr \<rho> \<and> \<rho> \<le> 1 / 2)) \<and>
         (c_n_iter c' = c_n_iter c \<longrightarrow> c' = c) \<and>
         (c_n_iter c < c_n_iter c' \<longrightarrow>
            c_N c' = f ((t + c_dt c') / 2) \<and>
            c_Neff c' = compute_N_effective X f (t / 2) ((t + c_dt c') / 2) \<and>
            (\<exists>\<rho>. max_rel_change (c_N c) Nold = Inr \<rho> \<and> \<rho> > 1 / 2))"
  using assms
proof (induction c arbitrary: c' ev rule: measure_induct_rule[of "\<lambda>c. 10 - c_n_iter c"])
  case (less c)
  let ?h = "halved X f t c"
  note run = less.prems(1) and small = less.prems(2)
  show ?case
  proof (cases "max_rel_change (c_N c) Nold")
    case (Inl e)
    then show ?thesis using run by (simp add: size_retry_unfold)
  next
    case (Inr change)
    show ?thesis
    proof (cases "change > 1 / 2")
      case False
      then have "c' = c" "ev = []" using run Inr by (simp_all add: size_retry_unfold)
      then show ?thesis using small Inr False by simp
    next
      case big: True
      have pos: "\<not> any_nonpos (c_N ?h)"
        using run Inr big by (auto simp: size_retry_unfold split: if_splits)
      show ?thesis
      proof (cases "c_n_iter ?h \<ge> 10")
        case True
        then have n9: "c_n_iter c = 9" using small by simp
        obtain change' where ch: "max_rel_change (c_N ?h) Nold = Inr change'"
          and res: "c' = ?h" "ev = [Evaluated (c_N ?h), Warned t Nold (c_N ?h) change']"
          using run Inr big pos True
          by (cases "max_rel_change (c_N ?h) Nold") (simp_all add: size_retry_unfold)
        show ?thesis using res n9 Inr big by simp
      next
        case False
        obtain r1 ev1 where rec: "size_retry X f t Nold ?h = (r1, ev1)"
          by (cases "size_retry X f t Nold ?h")
        have eq: "r1 = Inr c'" "ev = Evaluated (c_N ?h) # ev1"
          using run Inr big pos False rec by (simp_all add: size_retry_unfold)
        have m: "10 - c_n_iter ?h < 10 - c_n_iter c" and small': "c_n_iter ?h < 10"
          using False by simp_all
        note IH = less.IH[OF m rec[unfolded eq(1)] small']
        have le: "Suc (c_n_iter c) \<le> c_n_iter c'" using IH by simp
        then have pw: "(2::real) ^ (c_n_iter c' - c_n_iter c) = 2 * 2 ^ (c_n_iter c' - Suc (c_n_iter c))"
          by (metis Suc_diff_Suc Suc_le_lessD power_Suc)
        have dt: "c_dt c' = c_dt c / 2 ^ (c_n_iter c' - c_n_iter c)"
          using IH pw by simp
        have cnt: "evaluations ev = c_n_iter c' - c_n_iter c"
          using IH eq(2) le by simp
        have warn: "list_ex is_warning ev \<longleftrightarrow> c_n_iter c' = 10"
          using IH eq(2) by simp
        have NN: "c_N c' = f ((t + c_dt c') / 2) \<and>
            c_Neff c' = compute_N_effective X f (t / 2) ((t + c_dt c') / 2)"
        proof (cases "c_n_iter c' = c_n_iter ?h")
          case True
          then have "c' = ?h" using IH by simp
          then show ?thesis by simp
        next
          case False
          then have "c_n_iter ?h < c_n_iter c'" using le by simp
          then show ?thesis using IH by simp
        qed
        show ?thesis using IH dt cnt warn NN le Inr big by simp
      qed
    qed
  qed
qed


lemma max_rel_change_Inl:
  "max_rel_change N Nold = Inl e \<Longrightarrow> N = [] \<or> Nold = []"
  by (cases N; cases Nold) (simp_all add: max_rel_change_def)

lemma max_rel_change_Inr:
  "N \<noteq> [] \<Longrightarrow> Nold \<noteq> [] \<Longrightarrow> \<exists>\<rho>. max_rel_change N Nold = Inr \<rho>"
  by (cases N; cases Nold) (simp_all add: max_rel_change_def)

lemma size_retry_count:
  assumes "size_retry X f t Nold c = (r, ev)" and "c_n_iter c < 10"
  shows "evaluations ev \<le> 10 - c_n_iter c"
  using assms
proof (induction c arbitrary: r ev rule: measure_induct_rule[of "\<lambda>c. 10 - c_n_iter c"])
  case (less c)
  let ?h = "halved X f t c"
  note run = less.prems(1) and small = less.prems(2)
  show ?case
  proof (cases "max_rel_change (c_N c) Nold")
    case (Inl e)
    then show ?thesis using run by (auto simp: size_retry_unfold)
  next
    case (Inr change)
    show ?thesis
    proof (cases "change > 1 / 2 \<and> \<not> any_nonpos (c_N ?h) \<and> \<not> c_n_iter ?h \<ge> 10")
      case False
      then show ?thesis using run Inr small
        by (auto simp: size_retry_unfold split: if_splits sum.splits)
    next
      case True
      obtain r1 ev1 where rec: "size_retry X f t Nold ?h = (r1, ev1)"
        by (cases "size_retry X f t Nold ?h")
      have eq: "ev = Evaluated (c_N ?h) # ev1"
        using run Inr True rec by (simp add: size_retry_unfold)
      have small': "c_n_iter ?h < 10" using True by simp
      then have m: "10 - c_n_iter ?h < 10 - c_n_iter c" by simp
      from less.IH[OF m rec small'] show ?thesis using eq small' by simp
    qed
  qed
qed

lemma size_retry_error:
  assumes "size_retry X f t Nold c = (Inl e, ev)"
    and "Nold \<noteq> []" and "\<forall>x. f x \<noteq> []" and "c_N c \<noteq> []"
  shows "e = NonPositiveSize"
  using assms(1,4)
proof (induction c arbitrary: ev rule: measure_induct_rule[of "\<lambda>c. 10 - c_n_iter c"])
  case (less c)
  let ?h = "halved X f t c"
  note run = less.prems(1)
  have hN: "c_N ?h \<noteq> []" using assms(3) by simp
  from max_rel_change_Inr[OF less.prems(2) assms(2)] obtain change where
    ch: "max_rel_change (c_N c) Nold = Inr change" ..
  from max_rel_change_Inr[OF hN assms(2)] obtain change' where
    ch': "max_rel_change (c_N ?h) Nold = Inr change'" ..
  show ?case
  proof (cases "change > 1 / 2 \<and> \<not> any_nonpos (c_N ?h) \<and> \<not> c_n_iter ?h \<ge> 10")
    case False
    then show ?thesis using run ch ch'
      by (auto simp: size_retry_unfold split: if_splits)
  next
    case True
    obtain r1 ev1 where rec: "size_retry X f t Nold ?h = (r1, ev1)"
      by (cases "size_retry X f t Nold ?h")
    have eq: "r1 = Inl e"
      using run ch True rec by (simp add: size_retry_unfold)
    have "c_n_iter ?h < 10" using True by simp
    then have m: "10 - c_n_iter ?h < 10 - c_n_iter c" by simp
    from less.IH[OF m rec[unfolded eq] hN] show ?thesis .
  qed
qed


text \<open>
  Claim C6. In a step whose sizes come from a function of time, the controller halves
  \<open>dt\<close> and evaluates the sizes again while the largest relative change against the
  previous sizes exceeds \<open>0.5\<close>, at most 10 times; after the 10th halving it prints a
  warning and goes on with the current \<open>dt\<close>. The retry loop always ends, and the only
  error it can raise is the one for a non-positive size.
\<close>

theorem size_adaptation_bounded:
  assumes "adapt_sizes X (Varying f) t Nold c = (r, ev)"
    and "Nold \<noteq> []" and "\<forall>x. f x \<noteq> []"
  shows "evaluations ev \<le> 11 \<and>
         (\<forall>e. r = Inl e \<longrightarrow> e = NonPositiveSize \<and> stopped_at_nonpositive ev) \<and>
         (\<forall>c'. r = Inr c' \<longrightarrow>
            c_n_iter c' \<le> 10 \<and> c_dt c' = c_dt c / 2 ^ c_n_iter c' \<and>
            evaluations ev = c_n_iter c' + 1 \<and>
            c_N c' = f ((t + c_dt c') / 2) \<and>
            c_Neff c' = compute_N_effective X f (t / 2) ((t + c_dt c') / 2) \<and>
            (0 < c_n_iter c' \<longleftrightarrow>
               (\<exists>\<rho>. max_rel_change (f ((t + c_dt c) / 2)) Nold = Inr \<rho> \<and> \<rho> > 1 / 2)) \<and>
            (c_n_iter c' < 10 \<longrightarrow>
               (\<exists>\<rho>. max_rel_change (c_N c') Nold = Inr \<rho> \<and> \<rho> \<le> 1 / 2)) \<and>
            (list_ex is_warning ev \<longleftrightarrow> c_n_iter c' = 10))"
proof (cases "any_nonpos (f ((t + c_dt c) / 2))")
  case True
  then have "r = Inl NonPositiveSize" "ev = [Evaluated (f ((t + c_dt c) / 2))]"
    using assms(1) by (simp_all add: adapt_sizes_def Let_def)
  then show ?thesis using True by simp
next
  case False
  let ?N = "f ((t + c_dt c) / 2)"
  let ?c0 = "c\<lparr>c_N := ?N, c_Neff := compute_N_effective X f (t / 2) ((t + c_dt c) / 2),
               c_n_iter := 0\<rparr>"
  obtain r1 ev1 where rec: "size_retry X f t Nold ?c0 = (r1, ev1)"
    by (cases "size_retry X f t Nold ?c0")
  have eq: "r = r1" "ev = Evaluated ?N # ev1"
    using assms(1) False rec by (simp_all add: adapt_sizes_def Let_def)
  have small: "c_n_iter ?c0 < 10" by simp
  have cnt: "evaluations ev \<le> 11"
    using size_retry_count[OF rec small] eq by simp
  have err: "\<forall>e. r = Inl e \<longrightarrow> e = NonPositiveSize \<and> stopped_at_nonpositive ev"
  proof (intro allI impI)
    fix e assume e: "r = Inl e"
    have N0: "c_N ?c0 \<noteq> []" using assms(3) by simp
    have "e = NonPositiveSize"
      using size_retry_error[OF rec[unfolded eq(1)[symmetric] e] assms(2,3) N0] .
    moreover have "stopped_at_nonpositive ev1"
      using size_retry_events[OF rec] eq e \<open>e = NonPositiveSize\<close> by simp
    ultimately show "e = NonPositiveSize \<and> stopped_at_nonpositive ev"
      using eq False by (simp add: stopped_Cons)
  qed
  have ok: "\<forall>c'. r = Inr c' \<longrightarrow>
            c_n_iter c' \<le> 10 \<and> c_dt c' = c_dt c / 2 ^ c_n_iter c' \<and>
            evaluations ev = c_n_iter c' + 1 \<and>
            c_N c' = f ((t + c_dt c') / 2) \<and>
            c_Neff c' = compute_N_effective X f (t / 2) ((t + c_dt c') / 2) \<and>
            (0 < c_n_iter c' \<longleftrightarrow>
               (\<exists>\<rho>. max_rel_change (f ((t + c_dt c) / 2)) Nold = Inr \<rho> \<and> \<rho> > 1 / 2)) \<and>
            (c_n_iter c' < 10 \<longrightarrow>
               (\<exists>\<rho>. max_rel_change (c_N c') Nold = Inr \<rho> \<and> \<rho> \<le> 1 / 2)) \<and>
            (list_ex is_warning ev \<longleftrightarrow> c_n_iter c' = 10)"
  proof (intro allI impI)
    fix c' assume c': "r = Inr c'"
    note R = size_retry_result[OF rec[unfolded eq(1)[symmetric] c'] small]
    have a: "c_n_iter c' \<le> 10" and b: "c_dt c' = c_dt c / 2 ^ c_n_iter c'"
      and d: "evaluations ev = c_n_iter c' + 1"
      and w: "list_ex is_warning ev \<longleftrightarrow> c_n_iter c' = 10"
      and g: "c_n_iter c' < 10 \<longrightarrow>
               (\<exists>\<rho>. max_rel_change (c_N c') Nold = Inr \<rho> \<and> \<rho> \<le> 1 / 2)"
      using R eq(2) by simp_all
    have NN: "c_N c' = f ((t + c_dt c') / 2) \<and>
            c_Neff c' = compute_N_effective X f (t / 2) ((t + c_dt c') / 2)"
    proof (cases "c_n_iter c' = 0")
      case True
      then have "c' = ?c0" using R by simp
      then show ?thesis by simp
    next
      case False
      then show ?thesis using R by simp
    qed
    have first: "0 < c_n_iter c' \<longleftrightarrow>
               (\<exists>\<rho>. max_rel_change (f ((t + c_dt c) / 2)) Nold = Inr \<rho> \<and> \<rho> > 1 / 2)"
    proof (cases "c_n_iter c' = 0")
      case True
      then have "c' = ?c0" using R by simp
      then have "\<exists>\<rho>. max_rel_change ?N Nold = Inr \<rho> \<and> \<rho> \<le> 1 / 2"
        using g True by simp
      then show ?thesis using True by auto
    next
      case False
      then show ?thesis using R by simp
    qed
    show "c_n_iter c' \<le> 10 \<and> c_dt c' = c_dt c / 2 ^ c_n_iter c' \<and>
            evaluations ev = c_n_iter c' + 1 \<and>
            c_N c' = f ((t + c_dt c') / 2) \<and>
            c_Neff c' = compute_N_effective X f (t / 2) ((t + c_dt c') / 2) \<and>
            (0 < c_n_iter c' \<longleftrightarrow>
               (\<exists>\<rho>. max_rel_change (f ((t + c_dt c) / 2)) Nold = Inr \<rho> \<and> \<rho> > 1 / 2)) \<and>
            (c_n_iter c' < 10 \<longrightarrow>
               (\<exists>\<rho>. max_rel_change (c_N c') Nold = Inr \<rho> \<and> \<rho> \<le> 1 / 2)) \<and>
            (list_ex is_warning ev \<longleftrightarrow> c_n_iter c' = 10)"
      using a b d NN[THEN conjunct1] NN[THEN conjunct2] first g w by (intro conjI)
  qed
  show ?thesis using cnt err ok by (intro conjI)
qed


theorem size_adaptation_bounded_witness:
  "adapt_sizes demo_ext (Varying (\<lambda>x. [1 + x])) 0 [1]
       \<lparr>c_dt = 2, c_N = [1], c_Neff = [1], c_n_iter = 0\<rparr>
     = (Inr \<lparr>c_dt = 1, c_N = [3 / 2], c_Neff = [6 / 5], c_n_iter = 1\<rparr>,
        [Evaluated [2], Evaluated [3 / 2]]) \<and>
   evaluations [Evaluated [2], Evaluated [3 / 2]] \<le> 11 \<and>
   (1::real) = 2 / 2 ^ 1 \<and>
   (\<exists>\<rho>. max_rel_change [3 / 2] [1] = Inr \<rho> \<and> \<rho> \<le> 1 / 2) \<and>
   \<not> list_ex is_warning [Evaluated [2], Evaluated [3 / 2]]"
proof -
  let ?c = "\<lparr>c_dt = 2, c_N = [1], c_Neff = [1], c_n_iter = 0\<rparr>"
  let ?c' = "\<lparr>c_dt = 1, c_N = [3 / 2], c_Neff = [6 / 5], c_n_iter = 1\<rparr>"
  let ?ev = "[Evaluated [2], Evaluated [3 / 2]]"
  have run: "adapt_sizes demo_ext (Varying (\<lambda>x. [1 + x])) 0 [1] ?c = (Inr ?c', ?ev)"
    by (simp add: adapt_sizes_def size_retry_unfold max_rel_change_def any_nonpos_def
        halved_def demo_ext_def demo_N_effective_def Let_def)
  have h: "[1::real] \<noteq> []" "\<forall>x::real. [1 + x] \<noteq> []" by simp_all
  note T = size_adaptation_bounded[OF run h]
  have "evaluations ?ev \<le> 11" using T by simp
  moreover have "c_dt ?c' = c_dt ?c / 2 ^ c_n_iter ?c'"
    using T[THEN conjunct2, THEN conjunct2, rule_format, of ?c'] by simp
  moreover have "\<exists>\<rho>. max_rel_change (c_N ?c') [1] = Inr \<rho> \<and> \<rho> \<le> 1 / 2"
    using T[THEN conjunct2, THEN conjunct2, rule_format, of ?c'] by simp
  moreover have "\<not> list_ex is_warning ?ev"
    using T[THEN conjunct2, THEN conjunct2, rule_format, of ?c'] by simp
  ultimately show ?thesis using run by simp
qed

lemma all_positive_append [simp]:
  "all_positive (ev @ ev') = (all_positive ev \<and> all_positive ev')"
  by (simp add: all_positive_def)


lemma discipline_Nil [simp]: "discipline raised [] = (\<not> raised)"
  by (simp add: discipline_def)





lemma lift_not_size_error [simp]: "lift r \<noteq> Inl NonPositiveSize"
  by (cases r) (simp_all add: lift_def)




lemma discipline_clean: "discipline False ev \<Longrightarrow> all_positive ev"
  by (simp add: discipline_def)







lemma upt_small [simp]: "[0..<3] = [0, 1, 2]" "[0..<2] = [0, 1]" "[0..<1] = [0]"
  by (simp_all add: upt_rec)

lemma demo_shape [simp]: "shape demo_sfs = [3]"
  by (simp add: demo_sfs_def of_vec_def)

lemma demo_calcB [simp]:
  "calcB [3] [0] = Inr ((zeros [3])\<lparr>entry := (entry (zeros [3]))([1] := 0)\<rparr>)"
  by (simp add: calcB_def calcB_body_def item_def setitem_def in_bounds_def unit_index_def zeros_def)



lemma entry_of_vec [simp]: "i < length v \<Longrightarrow> entry (of_vec v) [i] = v ! i"
  by (simp add: of_vec_def)

lemma shape_of_vec [simp]: "shape (of_vec v) = [length v]"
  by (simp add: of_vec_def)

lemma demo_calcD3 [simp]: "demo_calcD 3 = [[0, 1, 0], [0, - 2, 0], [0, 1, 0]]"
  by (simp add: demo_calcD_def)

lemma zero_matrix3 [simp]: "zero_matrix 3 = [[0, 0, 0], [0, 0, 0], [0, 0, 0]]"
  by (simp add: zero_matrix_def numeral_3_eq_3)

lemma demo_prepare:
  "prepare_nomig demo_ext demo_args (Constant [1 / 2])
       \<lparr>fp_s = Constant [0], fp_Npop = Constant [1], fp_u = [0], fp_v = None\<rparr> [1]
     = Inr (demo_cfg, demo_state 0 [0, 1, 0] None)"
  by (simp add: prepare_nomig_def demo_args_def Let_def drift_ops_def sel1_ops_def sel2_ops_def
      mutation_term_def item_def at_time_def demo_ext_def demo_cfg_def demo_state_def)
     (simp add: demo_sfs_def)

lemma demo_build:
  "build_nomig demo_ext demo_cfg [1] (1 / 2) [0] [1 / 2] = Inr demo_ops"
  by (simp add: build_nomig_def demo_cfg_def drift_ops_def sel1_ops_def sel2_ops_def item_def
      implicit_matrix_def explicit_matrix_def axis_operator_def madd_def msub_def smul_def eye_def
      demo_ext_def demo_factorized_def demo_diagonals_def demo_pivots_def demo_ops_def Let_def)


lemma dot_1d:
  assumes "shape T = [d]" and "list_all (\<lambda>row. length row = d) Q"
  shows "dot Q T = Inr \<lparr>shape = [length Q],
            entry = (\<lambda>idx. case idx of [] \<Rightarrow> 0
                      | i # rest \<Rightarrow> (\<Sum>k\<leftarrow>[0..<d]. Q ! i ! k * entry T (k # rest)))\<rparr>"
  using assms by (simp add: dot_def)

lemma advance_nomig_1d:
  assumes "k_dims K = [d]" and "shape sfs = [d]" and "list_all (\<lambda>row. length row = d) q"
    and "k_B K = Infinite_sites B"
  shows "advance_nomig K ([q], [f]) dt sfs =
           Inr (of_vec (f (map (\<lambda>i. (\<Sum>k\<leftarrow>[0..<d]. q ! i ! k * entry sfs [k]) + dt * entry B [i])
                             [0..<length q])))"
  using assms
  by (simp add: advance_nomig_def item_def dot_1d[OF assms(2,3)] as_vec_def tadd_def tscale_def)

lemma demo_advance:
  "advance_nomig demo_cfg demo_ops (1 / 2) (of_vec [a, b, c]) =
     Inr (of_vec [a + b / 9 , 7 * b / 9, b / 9 + c])"
proof -
  have "advance_nomig demo_cfg
          ([[[1, 1 / 16, 0], [0, 7 / 8, 0], [0, 1 / 16, 1]]],
           [demo_tridiag_solve [0, 0, - (1 / 16)] [1, 9 / 8, 1] [- (1 / 16), 0, 0]])
          (1 / 2) (of_vec [a, b, c]) =
        Inr (of_vec (demo_tridiag_solve [0, 0, - (1 / 16)] [1, 9 / 8, 1] [- (1 / 16), 0, 0]
          (map (\<lambda>i. (\<Sum>k\<leftarrow>[0..<3]. [[1, 1 / 16, 0], [0, 7 / 8, 0], [0, 1 / 16, 1]] ! i ! k
                       * entry (of_vec [a, b, c]) [k])
                  + 1 / 2 * entry ((zeros [3])\<lparr>entry := (entry (zeros [3]))([1] := 0)\<rparr>) [i])
             [0..<length [[1, 1 / 16, 0], [0, 7 / 8, 0], [0, 1 / 16, 1 :: real]]])))"
    by (rule advance_nomig_1d) (simp_all add: demo_cfg_def)
  also have "demo_tridiag_solve [0, 0, - (1 / 16)] [1, 9 / 8, 1] [- (1 / 16), 0, 0]
          (map (\<lambda>i. (\<Sum>k\<leftarrow>[0..<3]. [[1, 1 / 16, 0], [0, 7 / 8, 0], [0, 1 / 16, 1]] ! i ! k
                       * entry (of_vec [a, b, c]) [k])
                  + 1 / 2 * entry ((zeros [3])\<lparr>entry := (entry (zeros [3]))([1] := 0)\<rparr>) [i])
             [0..<length [[1, 1 / 16, 0], [0, 7 / 8, 0], [0, 1 / 16, 1 :: real]]])
        = [a + b / 9 , 7 * b / 9, b / 9 + c]"
    by (simp add: demo_tridiag_solve_def demo_pivots_def zeros_def Let_def field_simps)
  finally show ?thesis by (simp add: demo_ops_def)
qed


lemma demo_state_fields [simp]:
  "g_t (demo_state t v ops) = t" "g_dt (demo_state t v ops) = 1 / 2"
  "g_sfs (demo_state t v ops) = of_vec v" "g_N (demo_state t v ops) = [1]"
  "g_Nold (demo_state t v ops) = [1]" "g_Neff (demo_state t v ops) = [1]"
  "g_s_new (demo_state t v ops) = [0]" "g_s_old (demo_state t v ops) = [0]"
  "g_h_new (demo_state t v ops) = [1 / 2]" "g_h_old (demo_state t v ops) = [1 / 2]"
  "g_ops (demo_state t v ops) = ops"
  by (simp_all add: demo_state_def)

lemma demo_cfg_fields [simp]:
  "k_Tmax demo_cfg = 1" "k_fac demo_cfg = 1 / 2" "k_Npop demo_cfg = Constant [1]"
  "k_s demo_cfg = Constant [0]" "k_h demo_cfg = Constant [1 / 2]" "k_dims demo_cfg = [3]"
  by (simp_all add: demo_cfg_def)

lemma demo_proposal [simp]:
  "nomig_proposal demo_ext demo_cfg (demo_state 0 v ops) = 1 / 2"
  "nomig_proposal demo_ext demo_cfg (demo_state (1 / 2) v ops) = 1 / 2"
  by (simp_all add: nomig_proposal_def propose_dt_def demo_ext_def)

lemma demo_step1:
  "nomig_step demo_ext demo_cfg (demo_state 0 [a, b, c] None)
     = (Inr (demo_state (1 / 2) [a + b / 9 , 7 * b / 9, b / 9 + c] (Some demo_ops)), [])"
  by (simp add: nomig_step_def nomig_apply_def adapt_sizes_def rebuild_nomig_def
      demo_build demo_advance lift_def Let_def)

lemma demo_step2:
  "nomig_step demo_ext demo_cfg (demo_state (1 / 2) [a, b, c] (Some demo_ops))
     = (Inr (demo_state 1 [a + b / 9 , 7 * b / 9, b / 9 + c] (Some demo_ops)), [])"
  by (simp add: nomig_step_def nomig_apply_def adapt_sizes_def rebuild_nomig_def
      demo_advance lift_def Let_def)

lemma demo_loop:
  "nomig_loop demo_ext demo_cfg (Suc (Suc 0)) (demo_state 0 [0, 1, 0] None)
     = (Some (Inr (demo_state 1 [16 / 81, 49 / 81, 16 / 81] (Some demo_ops))), [])"
  using demo_step1[of 0 1 0] demo_step2[of "1 / 9" "7 / 9" "1 / 9"] by simp

lemma propose_dt_min:
  "propose_dt bound Tmax fac t = min (min bound (Tmax * fac)) (Tmax - t)"
  by (auto simp: propose_dt_def Let_def min_def)

lemma adapt_sizes_dt:
  assumes "adapt_sizes X Np t Nold c = (Inr c', ev)" and "c_n_iter c = 0"
  shows "\<exists>n\<le>10. c_dt c' = c_dt c / 2 ^ n"
proof (cases Np)
  case (Constant v)
  then have "c' = c" using assms by (simp add: adapt_sizes_def)
  then show ?thesis by (intro exI[of _ 0]) simp
next
  case (Varying f)
  let ?N = "f ((t + c_dt c) / 2)"
  let ?c0 = "c\<lparr>c_N := ?N, c_Neff := compute_N_effective X f (t / 2) ((t + c_dt c) / 2),
               c_n_iter := 0\<rparr>"
  have pos: "\<not> any_nonpos ?N"
    using assms Varying by (auto simp: adapt_sizes_def Let_def split: if_splits)
  obtain r1 ev1 where rec: "size_retry X f t Nold ?c0 = (r1, ev1)"
    by (cases "size_retry X f t Nold ?c0")
  have "r1 = Inr c'" using assms Varying pos rec by (simp add: adapt_sizes_def Let_def)
  from size_retry_result[OF rec[unfolded this]]
  have "c_n_iter c' \<le> 10" "c_dt c' = c_dt c / 2 ^ c_n_iter c'" by simp_all
  then show ?thesis by blast
qed

lemma nomig_step_Inr:
  assumes "nomig_step X K st = (Inr st', ev)"
  shows "\<exists>c'. adapt_sizes X (k_Npop K) (g_t st) (g_Nold st)
              \<lparr>c_dt = nomig_proposal X K st, c_N = g_N st, c_Neff = g_Neff st, c_n_iter = 0\<rparr>
              = (Inr c', ev) \<and> nomig_apply X K st c' = Inr st'"
proof -
  let ?c = "\<lparr>c_dt = nomig_proposal X K st, c_N = g_N st, c_Neff = g_Neff st, c_n_iter = 0\<rparr>"
  obtain r1 ev1 where a: "adapt_sizes X (k_Npop K) (g_t st) (g_Nold st) ?c = (r1, ev1)"
    by (cases "adapt_sizes X (k_Npop K) (g_t st) (g_Nold st) ?c")
  have eq: "bnd r1 (\<lambda>c. lift (nomig_apply X K st c)) = Inr st'" "ev = ev1"
    using assms a by (simp_all add: nomig_step_def)
  then obtain c' where c': "r1 = Inr c'" by (cases r1) simp_all
  then have "lift (nomig_apply X K st c') = Inr st'" using eq by simp
  then have "nomig_apply X K st c' = Inr st'"
    by (cases "nomig_apply X K st c'") (simp_all add: lift_def)
  then show ?thesis using a c' eq(2) by simp
qed

lemma nomig_apply_time:
  assumes "nomig_apply X K st c = Inr st'"
  shows "g_t st' = g_t st + c_dt c \<and> g_dt st' = c_dt c"
  using assms
  by (auto simp: nomig_apply_def Let_def bnd_def split: sum.splits if_splits)

lemma nomig_step_time:
  assumes "nomig_step X K st = (Inr st', ev)"
  shows "\<exists>n\<le>10. g_t st' = g_t st + nomig_proposal X K st / 2 ^ n \<and>
                 g_dt st' = nomig_proposal X K st / 2 ^ n"
proof -
  from nomig_step_Inr[OF assms] obtain c' where
    c': "adapt_sizes X (k_Npop K) (g_t st) (g_Nold st)
              \<lparr>c_dt = nomig_proposal X K st, c_N = g_N st, c_Neff = g_Neff st, c_n_iter = 0\<rparr>
              = (Inr c', ev) \<and> nomig_apply X K st c' = Inr st'" ..
  from adapt_sizes_dt[OF c'[THEN conjunct1]] obtain n where
    n: "n \<le> 10 \<and> c_dt c' = nomig_proposal X K st / 2 ^ n" by auto
  show ?thesis using nomig_apply_time[OF c'[THEN conjunct2]] n by auto
qed

lemma halved_le:
  fixes p :: real
  assumes "p \<le> b" and "0 < b"
  shows "p / 2 ^ n \<le> b"
proof (cases "0 \<le> p")
  case True
  have "p / 2 ^ n \<le> p / 1"
    by (rule divide_left_mono) (use True in simp_all)
  then show ?thesis using assms by simp
next
  case False
  then have "p / 2 ^ n < 0" by (simp add: divide_neg_pos)
  then show ?thesis using assms by simp
qed

lemma nomig_step_within_target:
  assumes "nomig_step X K st = (Inr st', ev)" and "g_t st < k_Tmax K"
  shows "g_t st' \<le> k_Tmax K"
proof -
  from nomig_step_time[OF assms(1)] obtain n where
    n: "g_t st' = g_t st + nomig_proposal X K st / 2 ^ n" by auto
  have "nomig_proposal X K st \<le> k_Tmax K - g_t st"
    by (simp add: nomig_proposal_def propose_dt_min)
  from halved_le[OF this, of n] assms(2) have "nomig_proposal X K st / 2 ^ n \<le> k_Tmax K - g_t st"
    by simp
  then show ?thesis using n by simp
qed

lemma nomig_loop_reaches_target:
  "nomig_loop X K fuel st = (Some (Inr st'), ev) \<Longrightarrow> g_t st \<le> k_Tmax K \<Longrightarrow> g_t st' = k_Tmax K"
proof (induction fuel arbitrary: st ev)
  case 0
  then show ?case by (auto split: if_splits)
next
  case (Suc fuel)
  show ?case
  proof (cases "g_t st < k_Tmax K")
    case False
    then show ?thesis using Suc.prems by auto
  next
    case True
    obtain r1 ev1 where s: "nomig_step X K st = (r1, ev1)" by (cases "nomig_step X K st")
    show ?thesis
    proof (cases r1)
      case (Inl e)
      then show ?thesis using Suc.prems True s by simp
    next
      case (Inr st1)
      obtain r2 ev2 where l: "nomig_loop X K fuel st1 = (r2, ev2)"
        by (cases "nomig_loop X K fuel st1")
      have "r2 = Some (Inr st')" using Suc.prems True s Inr l by simp
      moreover have "g_t st1 \<le> k_Tmax K"
        using nomig_step_within_target[OF s[unfolded Inr] True] .
      ultimately show ?thesis using Suc.IH[OF l[unfolded \<open>r2 = Some (Inr st')\<close>]] by simp
    qed
  qed
qed

lemma prepare_nomig_fields:
  assumes "prepare_nomig X A h p N = Inr (K, st0)"
  shows "k_Tmax K = 2 * tf A \<and> k_fac K = dt_fac A \<and> g_t st0 = 0 \<and> g_dt st0 = 2 * tf A * dt_fac A
         \<and> g_sfs st0 = sfs0 A \<and> g_ops st0 = None \<and> g_N st0 = N \<and> g_Nold st0 = N \<and> g_Neff st0 = N
         \<and> k_Npop K = fp_Npop p \<and> k_s K = fp_s p \<and> k_h K = h \<and> k_dims K = shape (sfs0 A)"
  using assms
  by (auto simp: prepare_nomig_def Let_def bnd_def split: sum.splits)


text \<open>
  Claim C5, as the code has it. In every iteration of the time loop of
  \<open>integrate_nomig\<close> the proposed step is the least of three numbers: the stability
  bound \<open>compute_dt(N, s, h)\<close>, the cap \<open>Tmax * dt_fac\<close>, and the time left
  \<open>Tmax - t\<close>, where \<open>Tmax = 2 * tf\<close>. A step never takes the elapsed time past
  \<open>Tmax\<close>, and the loop returns exactly at \<open>t = Tmax\<close>.
\<close>

theorem step_size_proposal_and_target:
  "nomig_proposal X K st =
     min (min (compute_dt X (g_N st) (Some (g_s_new st)) (Some (g_h_new st))) (k_Tmax K * k_fac K))
         (k_Tmax K - g_t st) \<and>
   (g_t st < k_Tmax K \<longrightarrow>
      (\<forall>st' ev. nomig_step X K st = (Inr st', ev) \<longrightarrow> g_t st' \<le> k_Tmax K)) \<and>
   (g_t st \<le> k_Tmax K \<longrightarrow>
      (\<forall>fuel st' ev. nomig_loop X K fuel st = (Some (Inr st'), ev) \<longrightarrow> g_t st' = k_Tmax K)) \<and>
   (g_t st = k_Tmax K \<longrightarrow> (\<forall>fuel. nomig_loop X K fuel st = (Some (Inr st), []))) \<and>
   (\<forall>A h p N K' st0. prepare_nomig X A h p N = Inr (K', st0) \<longrightarrow>
      k_Tmax K' = 2 * tf A \<and> k_fac K' = dt_fac A \<and> g_t st0 = 0)"
proof (intro conjI impI allI)
  show "nomig_proposal X K st =
     min (min (compute_dt X (g_N st) (Some (g_s_new st)) (Some (g_h_new st))) (k_Tmax K * k_fac K))
         (k_Tmax K - g_t st)"
    by (simp add: nomig_proposal_def propose_dt_min)
next
  fix st' ev assume "g_t st < k_Tmax K" "nomig_step X K st = (Inr st', ev)"
  then show "g_t st' \<le> k_Tmax K" using nomig_step_within_target by blast
next
  fix fuel st' ev assume "g_t st \<le> k_Tmax K" "nomig_loop X K fuel st = (Some (Inr st'), ev)"
  then show "g_t st' = k_Tmax K" using nomig_loop_reaches_target by blast
next
  fix fuel assume "g_t st = k_Tmax K"
  then show "nomig_loop X K fuel st = (Some (Inr st), [])" by (cases fuel) simp_all
next
  fix A h p N K' st0 assume "prepare_nomig X A h p N = Inr (K', st0)"
  from prepare_nomig_fields[OF this]
  show "k_Tmax K' = 2 * tf A" "k_fac K' = dt_fac A" "g_t st0 = 0" by simp_all
qed

theorem step_size_proposal_and_target_witness:
  "g_t (demo_state 0 [0, 1, 0] None) < k_Tmax demo_cfg \<and>
   nomig_step demo_ext demo_cfg (demo_state 0 [0, 1, 0] None)
     = (Inr (demo_state (1 / 2) [1 / 9, 7 / 9, 1 / 9] (Some demo_ops)), []) \<and>
   g_t (demo_state (1 / 2) [1 / 9, 7 / 9, 1 / 9] (Some demo_ops)) \<le> k_Tmax demo_cfg \<and>
   nomig_loop demo_ext demo_cfg (Suc (Suc 0)) (demo_state 0 [0, 1, 0] None)
     = (Some (Inr (demo_state 1 [16 / 81, 49 / 81, 16 / 81] (Some demo_ops))), []) \<and>
   g_t (demo_state 1 [16 / 81, 49 / 81, 16 / 81] (Some demo_ops)) = k_Tmax demo_cfg \<and>
   nomig_proposal demo_ext demo_cfg (demo_state 0 [0, 1, 0] None) = min (min 1 (1 * (1 / 2))) (1 - 0)"
proof -
  note T = step_size_proposal_and_target[of demo_ext demo_cfg "demo_state 0 [0, 1, 0] None"]
  have lt: "g_t (demo_state 0 [0, 1, 0] None) < k_Tmax demo_cfg" by simp
  have s: "nomig_step demo_ext demo_cfg (demo_state 0 [0, 1, 0] None)
     = (Inr (demo_state (1 / 2) [1 / 9, 7 / 9, 1 / 9] (Some demo_ops)), [])"
    using demo_step1[of 0 1 0] by simp
  have l: "nomig_loop demo_ext demo_cfg (Suc (Suc 0)) (demo_state 0 [0, 1, 0] None)
     = (Some (Inr (demo_state 1 [16 / 81, 49 / 81, 16 / 81] (Some demo_ops))), [])"
    by (rule demo_loop)
  have a: "g_t (demo_state (1 / 2) [1 / 9, 7 / 9, 1 / 9] (Some demo_ops)) \<le> k_Tmax demo_cfg"
    using T[THEN conjunct2, THEN conjunct1, rule_format, OF lt s] .
  have b: "g_t (demo_state 1 [16 / 81, 49 / 81, 16 / 81] (Some demo_ops)) = k_Tmax demo_cfg"
    using T[THEN conjunct2, THEN conjunct2, THEN conjunct1, rule_format, OF _ l] lt by simp
  have c: "nomig_proposal demo_ext demo_cfg (demo_state 0 [0, 1, 0] None)
             = min (min 1 (1 * (1 / 2))) (1 - 0)"
    using T[THEN conjunct1] by (simp add: demo_ext_def)
  show ?thesis using lt s a l b c by (intro conjI)
qed

theorem proposal_differs_from_min_of_bound_and_remaining:
  "nomig_proposal demo_ext demo_cfg (demo_state 0 [0, 1, 0] None) = 1 / 2 \<and>
   min (compute_dt demo_ext (g_N (demo_state 0 [0, 1, 0] None))
          (Some (g_s_new (demo_state 0 [0, 1, 0] None))) (Some (g_h_new (demo_state 0 [0, 1, 0] None))))
       (k_Tmax demo_cfg - g_t (demo_state 0 [0, 1, 0] None)) = 1"
proof
  show "nomig_proposal demo_ext demo_cfg (demo_state 0 [0, 1, 0] None) = 1 / 2" by simp
  have "compute_dt demo_ext [1] (Some [0]) (Some [1 / 2]) = 1" by (simp add: demo_ext_def)
  then show "min (compute_dt demo_ext (g_N (demo_state 0 [0, 1, 0] None))
          (Some (g_s_new (demo_state 0 [0, 1, 0] None))) (Some (g_h_new (demo_state 0 [0, 1, 0] None))))
       (k_Tmax demo_cfg - g_t (demo_state 0 [0, 1, 0] None)) = 1" by simp
qed

lemma nomig_apply_unfold:
  "nomig_apply X K st c =
     bnd (if rebuild_nomig (g_t st) (g_Nold st) (c_N c) (c_dt c) (g_dt st)
               (new_s K st (c_dt c)) (g_s_old st) (new_h K st (c_dt c)) (g_h_old st)
          then bnd (build_nomig X K (c_Neff c) (c_dt c) (new_s K st (c_dt c)) (new_h K st (c_dt c)))
                 (\<lambda>ops. Inr (Some ops))
          else Inr (g_ops st)) (\<lambda>ops.
       bnd (case ops of None \<Rightarrow> Inl NameError
                      | Some o' \<Rightarrow> advance_nomig K o' (c_dt c) (g_sfs st)) (\<lambda>sfs'.
         Inr \<lparr>g_t = g_t st + c_dt c, g_dt = c_dt c, g_sfs = sfs', g_N = c_N c, g_Nold = c_N c,
              g_Neff = c_Neff c, g_s_new = new_s K st (c_dt c), g_s_old = new_s K st (c_dt c),
              g_h_new = new_h K st (c_dt c), g_h_old = new_h K st (c_dt c), g_ops = ops\<rparr>))"
  by (simp add: nomig_apply_def Let_def new_s_def new_h_def)

lemma bnd_eq_Inr: "bnd m f = Inr y \<Longrightarrow> \<exists>x. m = Inr x \<and> f x = Inr y"
  by (cases m) simp_all

lemma nomig_apply_fields:
  assumes "nomig_apply X K st c = Inr st'"
  shows "g_t st' = g_t st + c_dt c" "g_dt st' = c_dt c" "g_N st' = c_N c" "g_Nold st' = c_N c"
    "g_Neff st' = c_Neff c" "g_s_new st' = new_s K st (c_dt c)" "g_s_old st' = new_s K st (c_dt c)"
    "g_h_new st' = new_h K st (c_dt c)" "g_h_old st' = new_h K st (c_dt c)"
    "\<exists>ops. g_ops st' = Some ops \<and> advance_nomig K ops (c_dt c) (g_sfs st) = Inr (g_sfs st')"
    "rebuild_nomig (g_t st) (g_Nold st) (c_N c) (c_dt c) (g_dt st)
        (new_s K st (c_dt c)) (g_s_old st) (new_h K st (c_dt c)) (g_h_old st) \<Longrightarrow>
       build_nomig X K (c_Neff c) (c_dt c) (new_s K st (c_dt c)) (new_h K st (c_dt c))
         = Inr (the (g_ops st'))"
    "\<not> rebuild_nomig (g_t st) (g_Nold st) (c_N c) (c_dt c) (g_dt st)
        (new_s K st (c_dt c)) (g_s_old st) (new_h K st (c_dt c)) (g_h_old st) \<Longrightarrow>
       g_ops st' = g_ops st"
proof -
  let ?R = "rebuild_nomig (g_t st) (g_Nold st) (c_N c) (c_dt c) (g_dt st)
        (new_s K st (c_dt c)) (g_s_old st) (new_h K st (c_dt c)) (g_h_old st)"
  let ?first = "if ?R
          then bnd (build_nomig X K (c_Neff c) (c_dt c) (new_s K st (c_dt c)) (new_h K st (c_dt c)))
                 (\<lambda>ops. Inr (Some ops))
          else Inr (g_ops st)"
  from assms[unfolded nomig_apply_unfold] obtain ops where
    ops: "?first = Inr ops \<and>
       bnd (case ops of None \<Rightarrow> Inl NameError
                      | Some o' \<Rightarrow> advance_nomig K o' (c_dt c) (g_sfs st)) (\<lambda>sfs'.
         Inr \<lparr>g_t = g_t st + c_dt c, g_dt = c_dt c, g_sfs = sfs', g_N = c_N c, g_Nold = c_N c,
              g_Neff = c_Neff c, g_s_new = new_s K st (c_dt c), g_s_old = new_s K st (c_dt c),
              g_h_new = new_h K st (c_dt c), g_h_old = new_h K st (c_dt c), g_ops = ops\<rparr>) = Inr st'"
    by (drule_tac bnd_eq_Inr) blast
  from bnd_eq_Inr[OF ops[THEN conjunct2]] obtain sfs' where
    sfs': "(case ops of None \<Rightarrow> Inl NameError
                      | Some o' \<Rightarrow> advance_nomig K o' (c_dt c) (g_sfs st)) = Inr sfs' \<and>
         Inr \<lparr>g_t = g_t st + c_dt c, g_dt = c_dt c, g_sfs = sfs', g_N = c_N c, g_Nold = c_N c,
              g_Neff = c_Neff c, g_s_new = new_s K st (c_dt c), g_s_old = new_s K st (c_dt c),
              g_h_new = new_h K st (c_dt c), g_h_old = new_h K st (c_dt c), g_ops = ops\<rparr> = Inr st'"
    by blast
  have st': "st' = \<lparr>g_t = g_t st + c_dt c, g_dt = c_dt c, g_sfs = sfs', g_N = c_N c, g_Nold = c_N c,
              g_Neff = c_Neff c, g_s_new = new_s K st (c_dt c), g_s_old = new_s K st (c_dt c),
              g_h_new = new_h K st (c_dt c), g_h_old = new_h K st (c_dt c), g_ops = ops\<rparr>"
    using sfs' by simp
  show "g_t st' = g_t st + c_dt c" "g_dt st' = c_dt c" "g_N st' = c_N c" "g_Nold st' = c_N c"
    "g_Neff st' = c_Neff c" "g_s_new st' = new_s K st (c_dt c)" "g_s_old st' = new_s K st (c_dt c)"
    "g_h_new st' = new_h K st (c_dt c)" "g_h_old st' = new_h K st (c_dt c)"
    by (simp_all add: st')
  obtain o' where o': "ops = Some o'" using sfs' by (cases ops) simp_all
  then show "\<exists>ops. g_ops st' = Some ops \<and> advance_nomig K ops (c_dt c) (g_sfs st) = Inr (g_sfs st')"
    using sfs' st' by simp
  {
    assume R: ?R
    then have "bnd (build_nomig X K (c_Neff c) (c_dt c) (new_s K st (c_dt c)) (new_h K st (c_dt c)))
                 (\<lambda>ops. Inr (Some ops)) = Inr ops" using ops by simp
    from bnd_eq_Inr[OF this]
    show "build_nomig X K (c_Neff c) (c_dt c) (new_s K st (c_dt c)) (new_h K st (c_dt c))
         = Inr (the (g_ops st'))" using st' by auto
  }
  {
    assume "\<not> ?R"
    then have "g_ops st = ops" using ops by simp
    then show "g_ops st' = g_ops st" using st' by simp
  }
qed


lemma adapt_sizes_constant:
  "adapt_sizes X (Constant v) t Nold c = (Inr c, [])"
  by (simp add: adapt_sizes_def)

lemma nomig_reach_invariant:
  assumes "nomig_reach X K st0 st"
    and "g_ops st0 = None" and "g_Nold st0 = g_N st0" and "g_Neff st0 = g_N st0"
    and "g_s_old st0 = g_s_new st0" and "g_h_old st0 = g_h_new st0"
  shows "g_Nold st = g_N st \<and> g_s_old st = g_s_new st \<and> g_h_old st = g_h_new st \<and>
         (g_ops st = None \<or>
            (\<exists>Ne. build_nomig X K Ne (g_dt st) (g_s_new st) (g_h_new st) = Inr (the (g_ops st)))) \<and>
         (\<forall>v. k_Npop K = Constant v \<longrightarrow> g_Neff st = g_N st \<and>
            (g_ops st = None \<or>
               build_nomig X K (g_N st) (g_dt st) (g_s_new st) (g_h_new st) = Inr (the (g_ops st))))"
  using assms
proof (induction rule: nomig_reach.induct)
  case reach_start
  then show ?case by simp
next
  case (reach_step st st' ev)
  note IH = reach_step.IH[OF reach_step.prems]
  from nomig_step_Inr[OF reach_step.hyps(3)] obtain c where
    c: "adapt_sizes X (k_Npop K) (g_t st) (g_Nold st)
              \<lparr>c_dt = nomig_proposal X K st, c_N = g_N st, c_Neff = g_Neff st, c_n_iter = 0\<rparr>
              = (Inr c, ev) \<and> nomig_apply X K st c = Inr st'" ..
  note F = nomig_apply_fields[OF c[THEN conjunct2]]
  let ?R = "rebuild_nomig (g_t st) (g_Nold st) (c_N c) (c_dt c) (g_dt st)
        (new_s K st (c_dt c)) (g_s_old st) (new_h K st (c_dt c)) (g_h_old st)"
  have some: "g_ops st' \<noteq> None" using F(10) by auto
  have built: "\<exists>Ne. build_nomig X K Ne (g_dt st') (g_s_new st') (g_h_new st') = Inr (the (g_ops st'))"
  proof (cases ?R)
    case True
    from F(11)[OF True] show ?thesis using F(2,6,8) by auto
  next
    case False
    have same0: "g_ops st' = g_ops st" by (rule F(12)[OF False])
    have same1: "c_dt c = g_dt st \<and> new_s K st (c_dt c) = g_s_old st \<and>
      new_h K st (c_dt c) = g_h_old st"
      using False unfolding rebuild_nomig_def by blast
    note same = same0 same1[THEN conjunct1] same1[THEN conjunct2, THEN conjunct1]
      same1[THEN conjunct2, THEN conjunct2]
    have "g_ops st \<noteq> None" using some same by simp
    then obtain Ne where "build_nomig X K Ne (g_dt st) (g_s_new st) (g_h_new st) = Inr (the (g_ops st))"
      using IH by auto
    then show ?thesis using same F(2,6,8) IH by auto
  qed
  have const: "\<forall>v. k_Npop K = Constant v \<longrightarrow> g_Neff st' = g_N st' \<and>
            (g_ops st' = None \<or>
               build_nomig X K (g_N st') (g_dt st') (g_s_new st') (g_h_new st') = Inr (the (g_ops st')))"
  proof (intro allI impI)
    fix v assume v: "k_Npop K = Constant v"
    have cc: "c = \<lparr>c_dt = nomig_proposal X K st, c_N = g_N st, c_Neff = g_Neff st, c_n_iter = 0\<rparr>"
      using c[THEN conjunct1] v by (simp add: adapt_sizes_constant)
    have eqN: "g_N st' = g_N st" "g_Neff st' = g_N st"
      using F(3,5) cc IH v by simp_all
    have "build_nomig X K (g_N st') (g_dt st') (g_s_new st') (g_h_new st') = Inr (the (g_ops st'))"
    proof (cases ?R)
      case True
      from F(11)[OF True] show ?thesis using F(2,3,5,6,8) eqN by simp
    next
      case False
      have same0: "g_ops st' = g_ops st" by (rule F(12)[OF False])
      have same1: "c_dt c = g_dt st \<and> new_s K st (c_dt c) = g_s_old st \<and>
        new_h K st (c_dt c) = g_h_old st"
        using False unfolding rebuild_nomig_def by blast
      note same = same0 same1[THEN conjunct1] same1[THEN conjunct2, THEN conjunct1]
        same1[THEN conjunct2, THEN conjunct2]
      have "g_ops st \<noteq> None" using some same by simp
      then have "build_nomig X K (g_N st) (g_dt st) (g_s_new st) (g_h_new st) = Inr (the (g_ops st))"
        using IH v by auto
      then show ?thesis using same F(2,6,8) IH eqN by auto
    qed
    then show "g_Neff st' = g_N st' \<and>
            (g_ops st' = None \<or>
               build_nomig X K (g_N st') (g_dt st') (g_s_new st') (g_h_new st') = Inr (the (g_ops st')))"
      using eqN by simp
  qed
  show ?case using F(3,4,6,7,8,9) built const by simp
qed


lemma jump_prepare:
  "prepare_nomig demo_ext jump_args (Constant [1 / 2])
       \<lparr>fp_s = Constant [0], fp_Npop = Varying jump_sizes, fp_u = [0], fp_v = None\<rparr> [1]
     = Inr (jump_cfg, jump_state 0 [0, 1, 0] [1] [1] None)"
  by (simp add: prepare_nomig_def jump_args_def demo_args_def Let_def drift_ops_def sel1_ops_def
      sel2_ops_def mutation_term_def item_def at_time_def demo_ext_def jump_cfg_def demo_cfg_def
      jump_state_def)
     (simp add: demo_sfs_def)

lemma jump_cfg_fields [simp]:
  "k_Tmax jump_cfg = 3 / 4" "k_fac jump_cfg = 1 / 3" "k_Npop jump_cfg = Varying jump_sizes"
  "k_s jump_cfg = Constant [0]" "k_h jump_cfg = Constant [1 / 2]" "k_dims jump_cfg = [3]"
  "k_B jump_cfg = Infinite_sites ((zeros [3])\<lparr>entry := (entry (zeros [3]))([1] := 0)\<rparr>)"
  "k_vd jump_cfg = [demo_calcD 3]" "k_vs jump_cfg = [zero_matrix 3]" "k_vs2 jump_cfg = [zero_matrix 3]"
  by (simp_all add: jump_cfg_def demo_cfg_def)

lemma jump_state_fields [simp]:
  "g_t (jump_state t v N Ne ops) = t" "g_dt (jump_state t v N Ne ops) = 1 / 4"
  "g_sfs (jump_state t v N Ne ops) = of_vec v" "g_N (jump_state t v N Ne ops) = N"
  "g_Nold (jump_state t v N Ne ops) = N" "g_Neff (jump_state t v N Ne ops) = Ne"
  "g_s_new (jump_state t v N Ne ops) = [0]" "g_s_old (jump_state t v N Ne ops) = [0]"
  "g_h_new (jump_state t v N Ne ops) = [1 / 2]" "g_h_old (jump_state t v N Ne ops) = [1 / 2]"
  "g_ops (jump_state t v N Ne ops) = ops"
  by (simp_all add: jump_state_def)

lemma jump_build:
  "build_nomig demo_ext jump_cfg [1] (1 / 4) [0] [1 / 2] = Inr (demo_ops_for (1 / 32))"
  "build_nomig demo_ext jump_cfg [10 / 9] (1 / 4) [0] [1 / 2] = Inr (demo_ops_for (9 / 320))"
  "build_nomig demo_ext jump_cfg [5 / 4] (1 / 4) [0] [1 / 2] = Inr (demo_ops_for (1 / 40))"
  by (simp_all add: build_nomig_def drift_ops_def sel1_ops_def sel2_ops_def item_def
      implicit_matrix_def explicit_matrix_def axis_operator_def madd_def msub_def smul_def eye_def
      demo_ext_def demo_factorized_def demo_diagonals_def demo_pivots_def demo_ops_for_def Let_def)

lemma jump_advance:
  assumes "1 + 2 * c \<noteq> 0"
  shows "advance_nomig jump_cfg (demo_ops_for c) dt (of_vec [a, b, e]) =
     Inr (of_vec [a + 2 * c * b / (1 + 2 * c), b * (1 - 2 * c) / (1 + 2 * c),
                  e + 2 * c * b / (1 + 2 * c)])"
proof -
  let ?q = "[[1, c, 0], [0, 1 - 2 * c, 0], [0, c, 1]]"
  let ?f = "demo_tridiag_solve [0, 0, - c] [1, 1 + 2 * c, 1] [- c, 0, 0]"
  let ?B = "(zeros [3])\<lparr>entry := (entry (zeros [3]))([1] := 0)\<rparr>"
  have "advance_nomig jump_cfg ([?q], [?f]) dt (of_vec [a, b, e]) =
        Inr (of_vec (?f (map (\<lambda>i. (\<Sum>k\<leftarrow>[0..<3]. ?q ! i ! k * entry (of_vec [a, b, e]) [k])
                                 + dt * entry ?B [i]) [0..<length ?q])))"
    by (rule advance_nomig_1d) simp_all
  also have "?f (map (\<lambda>i. (\<Sum>k\<leftarrow>[0..<3]. ?q ! i ! k * entry (of_vec [a, b, e]) [k])
                                 + dt * entry ?B [i]) [0..<length ?q])
        = [a + 2 * c * b / (1 + 2 * c), b * (1 - 2 * c) / (1 + 2 * c), e + 2 * c * b / (1 + 2 * c)]"
    using assms
    by (simp add: demo_tridiag_solve_def demo_pivots_def zeros_def Let_def field_simps)
  finally show ?thesis by (simp add: demo_ops_for_def)
qed


lemma jump_proposal [simp]:
  "nomig_proposal demo_ext jump_cfg (jump_state 0 v N Ne ops) = 1 / 4"
  "nomig_proposal demo_ext jump_cfg (jump_state (1 / 4) v N Ne ops) = 1 / 4"
  "nomig_proposal demo_ext jump_cfg (jump_state (1 / 2) v N Ne ops) = 1 / 4"
  by (simp_all add: nomig_proposal_def propose_dt_def demo_ext_def)

lemma jump_adapt:
  "adapt_sizes demo_ext (Varying jump_sizes) 0 [1]
      \<lparr>c_dt = 1 / 4, c_N = [1], c_Neff = [1], c_n_iter = 0\<rparr>
     = (Inr \<lparr>c_dt = 1 / 4, c_N = [1], c_Neff = [1], c_n_iter = 0\<rparr>, [Evaluated [1]])"
  "adapt_sizes demo_ext (Varying jump_sizes) (1 / 4) [1]
      \<lparr>c_dt = 1 / 4, c_N = [1], c_Neff = [1], c_n_iter = 0\<rparr>
     = (Inr \<lparr>c_dt = 1 / 4, c_N = [5 / 4], c_Neff = [10 / 9], c_n_iter = 0\<rparr>, [Evaluated [5 / 4]])"
  "adapt_sizes demo_ext (Varying jump_sizes) (1 / 2) [5 / 4]
      \<lparr>c_dt = 1 / 4, c_N = [5 / 4], c_Neff = [10 / 9], c_n_iter = 0\<rparr>
     = (Inr \<lparr>c_dt = 1 / 4, c_N = [5 / 4], c_Neff = [5 / 4], c_n_iter = 0\<rparr>, [Evaluated [5 / 4]])"
  by (simp_all add: adapt_sizes_def size_retry_unfold max_rel_change_def any_nonpos_def
      jump_sizes_def demo_ext_def demo_N_effective_def Let_def)

lemma jump_step1:
  "nomig_step demo_ext jump_cfg (jump_state 0 [0, 1, 0] [1] [1] None)
     = (Inr (jump_state (1 / 4) [1 / 17, 15 / 17, 1 / 17] [1] [1] (Some (demo_ops_for (1 / 32)))),
        [Evaluated [1]])"
  by (simp add: nomig_step_def nomig_apply_unfold jump_adapt rebuild_nomig_def new_s_def new_h_def
      jump_build jump_advance lift_def)

lemma jump_step2:
  "nomig_step demo_ext jump_cfg
       (jump_state (1 / 4) [1 / 17, 15 / 17, 1 / 17] [1] [1] (Some (demo_ops_for (1 / 32))))
     = (Inr (jump_state (1 / 2) [304 / 2873, 2265 / 2873, 304 / 2873] [5 / 4] [10 / 9]
               (Some (demo_ops_for (9 / 320)))),
        [Evaluated [5 / 4]])"
  by (simp add: nomig_step_def nomig_apply_unfold jump_adapt rebuild_nomig_def new_s_def new_h_def
      jump_build jump_advance lift_def)

lemma jump_step3:
  "nomig_step demo_ext jump_cfg
       (jump_state (1 / 2) [304 / 2873, 2265 / 2873, 304 / 2873] [5 / 4] [10 / 9]
               (Some (demo_ops_for (9 / 320))))
     = (Inr (jump_state (3 / 4) [71761 / 485537, 342015 / 485537, 71761 / 485537] [5 / 4] [5 / 4]
               (Some (demo_ops_for (9 / 320)))),
        [Evaluated [5 / 4]])"
  by (simp add: nomig_step_def nomig_apply_unfold jump_adapt rebuild_nomig_def new_s_def new_h_def
      jump_build jump_advance lift_def)


lemma jump_loop:
  "nomig_loop demo_ext jump_cfg (Suc (Suc (Suc 0))) (jump_state 0 [0, 1, 0] [1] [1] None)
     = (Some (Inr (jump_state (3 / 4) [71761 / 485537, 342015 / 485537, 71761 / 485537]
                     [5 / 4] [5 / 4] (Some (demo_ops_for (9 / 320))))),
        [Evaluated [1], Evaluated [5 / 4], Evaluated [5 / 4]])"
  by (simp add: jump_step1 jump_step2 jump_step3)

text \<open>
  Claim C4, as the code has it. In every iteration of the time loop of
  \<open>integrate_nomig\<close> the operators, the explicit matrices and the factorizations are
  built anew exactly when \<open>t = 0\<close> or the size vector, \<open>dt\<close>, the selection vector
  or the dominance vector differs from the previous step's; otherwise the previous ones are
  kept. The operators in use are always those built from the step's \<open>dt\<close>, \<open>s\<close>
  and \<open>h\<close>; the drift part is scaled by the effective size of the step of the last
  rebuild, which is the step's own size vector when the sizes are a constant vector.
\<close>

theorem operators_follow_rebuild_rule:
  assumes "prepare_nomig X A h p N = Inr (K, st0)"
    and "nomig_reach X K st0 st"
    and "g_t st < k_Tmax K"
    and "nomig_step X K st = (Inr st', ev)"
  shows "((g_t st = 0 \<or> g_N st \<noteq> g_N st' \<or> g_dt st' \<noteq> g_dt st \<or>
           g_s_new st' \<noteq> g_s_new st \<or> g_h_new st' \<noteq> g_h_new st) \<longrightarrow>
            build_nomig X K (g_Neff st') (g_dt st') (g_s_new st') (g_h_new st')
              = Inr (the (g_ops st'))) \<and>
         (\<not> (g_t st = 0 \<or> g_N st \<noteq> g_N st' \<or> g_dt st' \<noteq> g_dt st \<or>
           g_s_new st' \<noteq> g_s_new st \<or> g_h_new st' \<noteq> g_h_new st) \<longrightarrow>
            g_ops st' = g_ops st) \<and>
         (\<exists>Ne ops. g_ops st' = Some ops \<and>
            build_nomig X K Ne (g_dt st') (g_s_new st') (g_h_new st') = Inr ops) \<and>
         (\<forall>v. k_Npop K = Constant v \<longrightarrow>
            build_nomig X K (g_N st') (g_dt st') (g_s_new st') (g_h_new st')
              = Inr (the (g_ops st')))"
proof -
  note P = prepare_nomig_fields[OF assms(1)]
  have st0: "g_ops st0 = None" "g_Nold st0 = g_N st0" "g_Neff st0 = g_N st0"
    using P by simp_all
  have st0': "g_s_old st0 = g_s_new st0" "g_h_old st0 = g_h_new st0"
    using assms(1) by (auto simp: prepare_nomig_def Let_def bnd_def split: sum.splits)
  note I = nomig_reach_invariant[OF assms(2) st0 st0']
  have reach': "nomig_reach X K st0 st'"
    by (rule reach_step[OF assms(2,3,4)])
  note I' = nomig_reach_invariant[OF reach' st0 st0']
  from nomig_step_Inr[OF assms(4)] obtain c where
    c: "adapt_sizes X (k_Npop K) (g_t st) (g_Nold st)
              \<lparr>c_dt = nomig_proposal X K st, c_N = g_N st, c_Neff = g_Neff st, c_n_iter = 0\<rparr>
              = (Inr c, ev) \<and> nomig_apply X K st c = Inr st'" ..
  note F = nomig_apply_fields[OF c[THEN conjunct2]]
  let ?R = "rebuild_nomig (g_t st) (g_Nold st) (c_N c) (c_dt c) (g_dt st)
        (new_s K st (c_dt c)) (g_s_old st) (new_h K st (c_dt c)) (g_h_old st)"
  have R: "?R \<longleftrightarrow> (g_t st = 0 \<or> g_N st \<noteq> g_N st' \<or> g_dt st' \<noteq> g_dt st \<or>
           g_s_new st' \<noteq> g_s_new st \<or> g_h_new st' \<noteq> g_h_new st)"
    using I F(2,3,6,8) by (simp add: rebuild_nomig_def)
  have a: "(g_t st = 0 \<or> g_N st \<noteq> g_N st' \<or> g_dt st' \<noteq> g_dt st \<or>
           g_s_new st' \<noteq> g_s_new st \<or> g_h_new st' \<noteq> g_h_new st) \<longrightarrow>
            build_nomig X K (g_Neff st') (g_dt st') (g_s_new st') (g_h_new st')
              = Inr (the (g_ops st'))"
    using F(11) R F(2,5,6,8) by simp
  have b: "\<not> (g_t st = 0 \<or> g_N st \<noteq> g_N st' \<or> g_dt st' \<noteq> g_dt st \<or>
           g_s_new st' \<noteq> g_s_new st \<or> g_h_new st' \<noteq> g_h_new st) \<longrightarrow>
            g_ops st' = g_ops st"
    using F(12) R by simp
  obtain ops where ops: "g_ops st' = Some ops" using F(10) by auto
  then obtain Ne where "build_nomig X K Ne (g_dt st') (g_s_new st') (g_h_new st') = Inr ops"
    using I' by auto
  then have d: "\<exists>Ne ops. g_ops st' = Some ops \<and>
            build_nomig X K Ne (g_dt st') (g_s_new st') (g_h_new st') = Inr ops"
    using ops by blast
  have e: "\<forall>v. k_Npop K = Constant v \<longrightarrow>
            build_nomig X K (g_N st') (g_dt st') (g_s_new st') (g_h_new st')
              = Inr (the (g_ops st'))"
    using I' ops by auto
  show ?thesis using a b d e by (intro conjI)
qed

theorem operators_follow_rebuild_rule_witness:
  "prepare_nomig demo_ext demo_args (Constant [1 / 2])
       \<lparr>fp_s = Constant [0], fp_Npop = Constant [1], fp_u = [0], fp_v = None\<rparr> [1]
     = Inr (demo_cfg, demo_state 0 [0, 1, 0] None) \<and>
   nomig_reach demo_ext demo_cfg (demo_state 0 [0, 1, 0] None)
     (demo_state (1 / 2) [1 / 9, 7 / 9, 1 / 9] (Some demo_ops)) \<and>
   g_t (demo_state (1 / 2) [1 / 9, 7 / 9, 1 / 9] (Some demo_ops)) < k_Tmax demo_cfg \<and>
   nomig_step demo_ext demo_cfg (demo_state (1 / 2) [1 / 9, 7 / 9, 1 / 9] (Some demo_ops))
     = (Inr (demo_state 1 [16 / 81, 49 / 81, 16 / 81] (Some demo_ops)), []) \<and>
   g_ops (demo_state 1 [16 / 81, 49 / 81, 16 / 81] (Some demo_ops))
     = g_ops (demo_state (1 / 2) [1 / 9, 7 / 9, 1 / 9] (Some demo_ops)) \<and>
   build_nomig demo_ext demo_cfg [1] (1 / 2) [0] [1 / 2] = Inr demo_ops"
proof -
  let ?st0 = "demo_state 0 [0, 1, 0] None"
  let ?st1 = "demo_state (1 / 2) [1 / 9, 7 / 9, 1 / 9] (Some demo_ops)"
  let ?st2 = "demo_state 1 [16 / 81, 49 / 81, 16 / 81] (Some demo_ops)"
  have s1: "nomig_step demo_ext demo_cfg ?st0 = (Inr ?st1, [])"
    using demo_step1[of 0 1 0] by simp
  have s2: "nomig_step demo_ext demo_cfg ?st1 = (Inr ?st2, [])"
    using demo_step2[of "1 / 9" "7 / 9" "1 / 9"] by simp
  have lt0: "g_t ?st0 < k_Tmax demo_cfg" and lt1: "g_t ?st1 < k_Tmax demo_cfg" by simp_all
  have r: "nomig_reach demo_ext demo_cfg ?st0 ?st1"
    by (rule reach_step[OF reach_start lt0 s1])
  note T = operators_follow_rebuild_rule[OF demo_prepare r lt1 s2]
  have keep: "g_ops ?st2 = g_ops ?st1"
    using T[THEN conjunct2, THEN conjunct1] by simp
  have built: "build_nomig demo_ext demo_cfg [1] (1 / 2) [0] [1 / 2] = Inr demo_ops"
    using T[THEN conjunct2, THEN conjunct2, THEN conjunct2, rule_format, of "[1]"] by simp
  show ?thesis using demo_prepare r lt1 s2 keep built by (intro conjI)
qed

theorem stale_operators_after_size_jump:
  "nomig_loop demo_ext jump_cfg (Suc (Suc (Suc 0))) (jump_state 0 [0, 1, 0] [1] [1] None)
     = (Some (Inr (jump_state (3 / 4) [71761 / 485537, 342015 / 485537, 71761 / 485537]
                     [5 / 4] [5 / 4] (Some (demo_ops_for (9 / 320))))),
        [Evaluated [1], Evaluated [5 / 4], Evaluated [5 / 4]]) \<and>
   nomig_step demo_ext jump_cfg
       (jump_state (1 / 2) [304 / 2873, 2265 / 2873, 304 / 2873] [5 / 4] [10 / 9]
               (Some (demo_ops_for (9 / 320))))
     = (Inr (jump_state (3 / 4) [71761 / 485537, 342015 / 485537, 71761 / 485537] [5 / 4] [5 / 4]
               (Some (demo_ops_for (9 / 320)))),
        [Evaluated [5 / 4]]) \<and>
   build_nomig demo_ext jump_cfg [5 / 4] (1 / 4) [0] [1 / 2] = Inr (demo_ops_for (1 / 40)) \<and>
   fst (demo_ops_for (9 / 320)) \<noteq> fst (demo_ops_for (1 / 40))"
  using jump_loop jump_step3 jump_build(3) by (simp add: demo_ops_for_def)

lemma mapE_ok:
  "(\<And>x. x \<in> set xs \<Longrightarrow> \<exists>y. f x = Inr y) \<Longrightarrow> \<exists>ys. mapE f xs = Inr ys \<and> length ys = length xs"
proof (induction xs)
  case Nil
  then show ?case by simp
next
  case (Cons x xs)
  obtain y where y: "f x = Inr y" using Cons.prems[of x] by auto
  have "\<And>z. z \<in> set xs \<Longrightarrow> \<exists>y. f z = Inr y" using Cons.prems by simp
  from Cons.IH[OF this] obtain ys where "mapE f xs = Inr ys \<and> length ys = length xs" ..
  then show ?case using y by simp
qed

lemma drift_ops_ok:
  assumes "P \<le> length Ne" and "P \<le> length vd"
  shows "\<exists>D. drift_ops Ne vd P = Inr D \<and> length D = P"
proof -
  have "\<And>i. i \<in> set [0..<P] \<Longrightarrow>
      \<exists>y. bnd (item Ne i) (\<lambda>ne. bnd (item vd i) (\<lambda>m. Inr (smul (1 / 4 / ne) m))) = Inr y"
    using assms by (simp add: item_def)
  from mapE_ok[of "[0..<P]", OF this] show ?thesis by (simp add: drift_ops_def)
qed

lemma sel1_ops_ok:
  assumes "P \<le> length s" and "P \<le> length h" and "P \<le> length vs"
  shows "\<exists>S. sel1_ops s h vs P = Inr S \<and> length S = P"
proof -
  have "\<And>i. i \<in> set [0..<P] \<Longrightarrow>
      \<exists>y. bnd (item s i) (\<lambda>si. bnd (item h i) (\<lambda>hi. bnd (item vs i) (\<lambda>m.
             Inr (smul (si * hi) m)))) = Inr y"
    using assms by (simp add: item_def)
  from mapE_ok[of "[0..<P]", OF this] show ?thesis by (simp add: sel1_ops_def)
qed

lemma sel2_ops_ok:
  assumes "P \<le> length s" and "P \<le> length h" and "P \<le> length vs"
  shows "\<exists>S. sel2_ops s h vs P = Inr S \<and> length S = P"
proof -
  have "\<And>i. i \<in> set [0..<P] \<Longrightarrow>
      \<exists>y. bnd (item s i) (\<lambda>si. bnd (item h i) (\<lambda>hi. bnd (item vs i) (\<lambda>m.
             Inr (smul (si * (1 - 2 * hi)) m)))) = Inr y"
    using assms by (simp add: item_def)
  from mapE_ok[of "[0..<P]", OF this] show ?thesis by (simp add: sel2_ops_def)
qed

lemma mutation_term_ok:
  assumes "v = None \<longrightarrow> length u = length dims \<and> (\<forall>d\<in>set dims. 2 \<le> d)"
  shows "\<exists>B. mutation_term X dims u v = Inr B"
proof (cases v)
  case None
  then have a: "length u = length dims" "\<forall>d\<in>set dims. 2 \<le> d" using assms by simp_all
  have "set [0..<length dims] \<subseteq> {..<length dims}" "distinct [0..<length dims]"
    "shape (zeros dims) = dims" by (auto simp: zeros_def)
  from calcB_loop[OF a this] obtain B where "calcB dims u = Inr B"
    unfolding calcB_def by blast
  then show ?thesis using None by (simp add: mutation_term_def)
next
  case (Some w)
  then show ?thesis by (simp add: mutation_term_def)
qed

lemma prepare_nomig_ok:
  assumes "length N = length (shape (sfs0 A))"
    and "length (at_time (fp_s p) 0) = length (shape (sfs0 A))"
    and "length (at_time h 0) = length (shape (sfs0 A))"
    and "fp_v p = None \<longrightarrow> length (fp_u p) = length (shape (sfs0 A)) \<and>
           (\<forall>d\<in>set (shape (sfs0 A)). 2 \<le> d)"
  shows "\<exists>K st0. prepare_nomig X A h p N = Inr (K, st0)"
proof -
  let ?dims = "shape (sfs0 A)"
  let ?P = "length ?dims"
  let ?vs = "map2 (calcS X) ?dims (map (\<lambda>d. calcJK13 X (d - 1)) ?dims)"
  let ?vs2 = "map2 (calcS2 X) ?dims (map (\<lambda>d. calcJK23 X (d - 1)) ?dims)"
  obtain D where D: "drift_ops N (map (calcD X) ?dims) ?P = Inr D"
    using drift_ops_ok[of ?P N "map (calcD X) ?dims"] assms(1) by auto
  obtain S1 where S1: "sel1_ops (at_time (fp_s p) 0) (at_time h 0) ?vs ?P = Inr S1"
    using sel1_ops_ok[of ?P "at_time (fp_s p) 0" "at_time h 0" ?vs] assms(2,3) by auto
  obtain S2 where S2: "sel2_ops (at_time (fp_s p) 0) (at_time h 0) ?vs2 ?P = Inr S2"
    using sel2_ops_ok[of ?P "at_time (fp_s p) 0" "at_time h 0" ?vs2] assms(2,3) by auto
  obtain B where B: "mutation_term X ?dims (fp_u p) (fp_v p) = Inr B"
    using mutation_term_ok[OF assms(4)] by blast
  show ?thesis using D S1 S2 B by (simp add: prepare_nomig_def Let_def)
qed

lemma prepare_neutral_fields:
  assumes "prepare_neutral X A p N = Inr (K, st0)"
  shows "m_Tmax K = 2 * tf A \<and> n_t st0 = 0 \<and> n_sfs st0 = sfs0 A"
  using assms
  by (auto simp: prepare_neutral_def Let_def bnd_def split: sum.splits)

lemma prepare_neutral_ok:
  assumes "length N = length (shape (sfs0 A))"
    and "fp_v p = None \<longrightarrow> length (fp_u p) = length (shape (sfs0 A)) \<and>
           (\<forall>d\<in>set (shape (sfs0 A)). 2 \<le> d)"
  shows "\<exists>K st0. prepare_neutral X A p N = Inr (K, st0)"
proof -
  let ?dims = "shape (sfs0 A)"
  let ?P = "length ?dims"
  obtain D where D: "drift_ops N (map (calcD_dense X) ?dims) ?P = Inr D"
    using drift_ops_ok[of ?P N "map (calcD_dense X) ?dims"] assms(1) by auto
  obtain B where B: "mutation_term X ?dims (fp_u p) (fp_v p) = Inr B"
    using mutation_term_ok[OF assms(2)] by blast
  show ?thesis using D B by (simp add: prepare_neutral_def Let_def)
qed

lemma nomig_loop_done:
  "k_Tmax K \<le> g_t st \<Longrightarrow> nomig_loop X K fuel st = (Some (Inr st), [])"
  by (cases fuel) simp_all

lemma neutral_loop_done:
  "m_Tmax K \<le> n_t st \<Longrightarrow> neutral_loop X K fuel st = (Some (Inr st), [])"
  by (cases fuel) simp_all


lemma freeze_sizes_wf:
  assumes "list_ex (\<lambda>f. f) fr \<longrightarrow> length fr = P"
    and "\<forall>t. length (at_time Np t) = P"
    and "\<forall>i<P. \<not> (i < length fr \<and> fr ! i) \<longrightarrow> 0 < at_time Np 0 ! i"
  shows "\<exists>Np'. (if list_ex (\<lambda>f. f) fr then freeze_sizes fr Np else Inr Np) = Inr Np' \<and>
           (\<forall>t. length (at_time Np' t) = P) \<and> \<not> any_nonpos (at_time Np' 0)"
proof (cases "list_ex (\<lambda>f. f) fr")
  case False
  then have none: "\<And>i. i < length fr \<Longrightarrow> \<not> fr ! i" by (simp add: list_ex_length)
  have "\<And>i. i < P \<Longrightarrow> 0 < at_time Np 0 ! i" using assms(3) none by blast
  then have "\<not> any_nonpos (at_time Np 0)"
    using assms(2) by (simp add: any_nonpos_def list_ex_length not_le)
  then show ?thesis using False assms(2) by simp
next
  case True
  then have len: "length fr = P" using assms(1) by simp
  have "\<forall>t. length (at_time Np t) = length fr" using assms(2) len by simp
  from freeze_sizes_spec[OF this] obtain Np' where N'0:
    "freeze_sizes fr Np = Inr Np' \<and>
     (\<forall>t. length (at_time Np' t) = length fr) \<and>
     (\<forall>t. \<forall>i<length fr. at_time Np' t ! i = (if fr ! i then 10 ^ 40 else at_time Np t ! i))" ..
  note N' = N'0[THEN conjunct1] N'0[THEN conjunct2, THEN conjunct1]
    N'0[THEN conjunct2, THEN conjunct2]
  have pos: "\<And>i. i < P \<Longrightarrow> 0 < at_time Np' 0 ! i"
  proof -
    fix i assume i: "i < P"
    have v: "at_time Np' 0 ! i = (if fr ! i then 10 ^ 40 else at_time Np 0 ! i)"
      using N'(3) i len by simp
    show "0 < at_time Np' 0 ! i"
    proof (cases "fr ! i")
      case True
      then show ?thesis using v by simp
    next
      case False
      then show ?thesis using v assms(3) i by simp
    qed
  qed
  have "\<not> any_nonpos (at_time Np' 0)"
    using pos N'(2) len by (simp add: any_nonpos_def list_ex_length not_le)
  then show ?thesis using True N'(1,2) len by simp
qed

lemma freeze_nomig_wf:
  assumes "list_ex (\<lambda>f. f) fr \<longrightarrow> length fr = P"
    and "length (fp_u p) = P"
    and "\<forall>w. fp_v p = Some w \<longrightarrow> length w = P"
    and "\<forall>t. length (at_time (fp_s p) t) = P"
    and "(if list_ex (\<lambda>f. f) fr then freeze_sizes fr (fp_Npop p) else Inr (fp_Npop p)) = Inr Np'"
  shows "\<exists>q. freeze_nomig fr p = Inr q \<and> fp_Npop q = Np' \<and> length (fp_u q) = P \<and>
           (fp_v q = None \<longleftrightarrow> fp_v p = None) \<and> (\<forall>t. length (at_time (fp_s q) t) = P)"
proof (cases "list_ex (\<lambda>f. f) fr")
  case False
  then show ?thesis using assms by (simp add: freeze_nomig_def)
next
  case True
  then have len: "length fr = P" using assms(1) by simp
  have "\<forall>t. length (at_time (fp_s p) t) = length fr" using assms(4) len by simp
  from freeze_selection_spec[OF this] obtain s' where s'0:
    "freeze_selection fr (fp_s p) = Inr s' \<and>
     (\<forall>t. length (at_time s' t) = length fr) \<and>
     (\<forall>t. \<forall>i<length fr. at_time s' t ! i = (if fr ! i then 0 else at_time (fp_s p) t ! i))" ..
  note s' = s'0[THEN conjunct1] s'0[THEN conjunct2, THEN conjunct1]
  have "length (fp_u p) = length fr" using assms(2) len by simp
  from mask_rates_spec[OF this] obtain u' where u'0:
    "mask_rates fr (fp_u p) = Inr u' \<and> length u' = length fr \<and>
     (\<forall>i<length fr. u' ! i = (if fr ! i then 0 else fp_u p ! i))" ..
  note u' = u'0[THEN conjunct1] u'0[THEN conjunct2, THEN conjunct1]
  have "\<forall>w. fp_v p = Some w \<longrightarrow> length w = length fr" using assms(3) len by simp
  from mask_rates_opt_spec[OF this] obtain v' where v'0:
    "mask_rates_opt fr (fp_v p) = Inr v' \<and> (v' = None \<longleftrightarrow> fp_v p = None) \<and>
     (\<forall>w w'. fp_v p = Some w \<longrightarrow> v' = Some w' \<longrightarrow>
       length w' = length fr \<and> (\<forall>i<length fr. w' ! i = (if fr ! i then 0 else w ! i)))" ..
  note v' = v'0[THEN conjunct1] v'0[THEN conjunct2, THEN conjunct1]
  have N': "freeze_sizes fr (fp_Npop p) = Inr Np'" using assms(5) True by simp
  have "freeze_nomig fr p = Inr \<lparr>fp_s = s', fp_Npop = Np', fp_u = u', fp_v = v'\<rparr>"
    using True s'(1) N' u'(1) v'(1) by (simp add: freeze_nomig_def)
  then show ?thesis using s'(2) u'(2) v'(2) len by simp
qed

lemma freeze_neutral_wf:
  assumes "list_ex (\<lambda>f. f) fr \<longrightarrow> length fr = P"
    and "length (fp_u p) = P"
    and "\<forall>w. fp_v p = Some w \<longrightarrow> length w = P"
    and "(if list_ex (\<lambda>f. f) fr then freeze_sizes fr (fp_Npop p) else Inr (fp_Npop p)) = Inr Np'"
  shows "\<exists>q. freeze_neutral fr p = Inr q \<and> fp_Npop q = Np' \<and> length (fp_u q) = P \<and>
           (fp_v q = None \<longleftrightarrow> fp_v p = None)"
proof (cases "list_ex (\<lambda>f. f) fr")
  case False
  then show ?thesis using assms by (simp add: freeze_neutral_def)
next
  case True
  then have len: "length fr = P" using assms(1) by simp
  have "length (fp_u p) = length fr" using assms(2) len by simp
  from mask_rates_spec[OF this] obtain u' where u'0:
    "mask_rates fr (fp_u p) = Inr u' \<and> length u' = length fr \<and>
     (\<forall>i<length fr. u' ! i = (if fr ! i then 0 else fp_u p ! i))" ..
  note u' = u'0[THEN conjunct1] u'0[THEN conjunct2, THEN conjunct1]
  have "\<forall>w. fp_v p = Some w \<longrightarrow> length w = length fr" using assms(3) len by simp
  from mask_rates_opt_spec[OF this] obtain v' where v'0:
    "mask_rates_opt fr (fp_v p) = Inr v' \<and> (v' = None \<longleftrightarrow> fp_v p = None) \<and>
     (\<forall>w w'. fp_v p = Some w \<longrightarrow> v' = Some w' \<longrightarrow>
       length w' = length fr \<and> (\<forall>i<length fr. w' ! i = (if fr ! i then 0 else w ! i)))" ..
  note v' = v'0[THEN conjunct1] v'0[THEN conjunct2, THEN conjunct1]
  have N': "freeze_sizes fr (fp_Npop p) = Inr Np'" using assms(4) True by simp
  have "freeze_neutral fr p = Inr \<lparr>fp_s = fp_s p, fp_Npop = Np', fp_u = u', fp_v = v'\<rparr>"
    using True N' u'(1) v'(1) by (simp add: freeze_neutral_def)
  then show ?thesis using u'(2) v'(2) len by simp
qed

lemma mutation_rates_wf:
  assumes "\<not> finite_genome A \<longrightarrow> length (rates P (theta A)) = P"
    and "finite_genome A \<longrightarrow> (\<exists>a b. theta_fd A = Some a \<and> theta_bd A = Some b \<and>
           length (rates P a) = P \<and> length (rates P b) = P)"
  shows "\<exists>u v. mutation_rates P A = Inr (u, v) \<and> length u = P \<and>
           (\<forall>w. v = Some w \<longrightarrow> length w = P) \<and> (v = None \<longleftrightarrow> \<not> finite_genome A)"
proof (cases "finite_genome A")
  case False
  then show ?thesis using assms(1) by (simp add: mutation_rates_def)
next
  case True
  then obtain a b where "theta_fd A = Some a \<and> theta_bd A = Some b \<and>
           length (rates P a) = P \<and> length (rates P b) = P" using assms(2) by blast
  then show ?thesis using True by (simp add: mutation_rates_def rates_opt_def)
qed


text \<open>
  Claim C10. Let the target time \<open>tf\<close> be zero or negative, and let the arguments be
  well formed: the size vector, the selection and dominance vectors and the mutation
  rates have one entry per axis of \<open>sfs0\<close>, the backward and forward rates are given when
  \<open>finite_genome\<close> is set, every axis has at least two bins when it is not, and the flags
  of \<open>frozen\<close>, when one is set, are one per axis. If every size evaluated at time 0 (the
  frozen ones are overwritten first) is positive, then \<open>integrate_nomig\<close> and
  \<open>integrate_neutral\<close> return a spectrum whose data is \<open>sfs0\<close> itself, after evaluating
  the sizes once and executing no time step: the result is the same for every amount of
  fuel, also for none.
\<close>

theorem nonpositive_target_returns_input:
  assumes "tf A \<le> 0"
    and "P = length (shape (sfs0 A))"
    and "\<forall>t. length (at_time (Npop A) t) = P"
    and "\<forall>i<P. \<not> (i < length (frozen A) \<and> frozen A ! i) \<longrightarrow> 0 < at_time (Npop A) 0 ! i"
    and "\<forall>t. length (at_time (normalise P 0 gamma) t) = P"
    and "length (at_time (normalise P (1 / 2) h) 0) = P"
    and "\<not> finite_genome A \<longrightarrow>
           length (rates P (theta A)) = P \<and> (\<forall>d\<in>set (shape (sfs0 A)). 2 \<le> d)"
    and "finite_genome A \<longrightarrow> (\<exists>a b. theta_fd A = Some a \<and> theta_bd A = Some b \<and>
           length (rates P a) = P \<and> length (rates P b) = P)"
    and "list_ex (\<lambda>f. f) (frozen A) \<longrightarrow> length (frozen A) = P"
  shows "\<exists>N0. \<not> any_nonpos N0 \<and>
           integrate_nomig X A gamma h fuel
             = (Some (Inr \<lparr>sp_data = sfs0 A, sp_mask_corners = (\<not> finite_genome A)\<rparr>),
                [Evaluated N0]) \<and>
           integrate_neutral X A fuel
             = (Some (Inr \<lparr>sp_data = sfs0 A, sp_mask_corners = (\<not> finite_genome A)\<rparr>),
                [Evaluated N0])"
proof -
  let ?fr = "frozen A"
  have r1: "\<not> finite_genome A \<longrightarrow> length (rates P (theta A)) = P" using assms(7) by simp
  from mutation_rates_wf[OF r1 assms(8)] obtain u v where uv0:
    "mutation_rates P A = Inr (u, v) \<and> length u = P \<and>
       (\<forall>w. v = Some w \<longrightarrow> length w = P) \<and> (v = None \<longleftrightarrow> \<not> finite_genome A)" by blast
  note uv = uv0[THEN conjunct1] uv0[THEN conjunct2, THEN conjunct1]
    uv0[THEN conjunct2, THEN conjunct2, THEN conjunct1]
    uv0[THEN conjunct2, THEN conjunct2, THEN conjunct2]
  from freeze_sizes_wf[OF assms(9) assms(3) assms(4)] obtain Np' where N'0:
    "(if list_ex (\<lambda>f. f) ?fr then freeze_sizes ?fr (Npop A) else Inr (Npop A)) = Inr Np' \<and>
       (\<forall>t. length (at_time Np' t) = P) \<and> \<not> any_nonpos (at_time Np' 0)" ..
  note N' = N'0[THEN conjunct1] N'0[THEN conjunct2, THEN conjunct1]
    N'0[THEN conjunct2, THEN conjunct2]
  let ?N0 = "at_time Np' 0"
  have init: "initial_sizes Np' = (Inr ?N0, [Evaluated ?N0])"
    using N'(3) by (simp add: initial_sizes_def Let_def)
  have lenN: "length ?N0 = length (shape (sfs0 A))" using N'(2) assms(2) by simp

  let ?p = "\<lparr>fp_s = normalise P 0 gamma, fp_Npop = Npop A, fp_u = u, fp_v = v\<rparr>"
  have a1: "length (fp_u ?p) = P" using uv(2) by simp
  have a2: "\<forall>w. fp_v ?p = Some w \<longrightarrow> length w = P" using uv(3) by simp
  have a3: "\<forall>t. length (at_time (fp_s ?p) t) = P" using assms(5) by simp
  have a4: "(if list_ex (\<lambda>f. f) ?fr then freeze_sizes ?fr (fp_Npop ?p) else Inr (fp_Npop ?p))
              = Inr Np'" using N'(1) by (simp split: if_splits)
  from freeze_nomig_wf[OF assms(9) a1 a2 a3 a4] obtain q where q0:
    "freeze_nomig ?fr ?p = Inr q \<and> fp_Npop q = Np' \<and> length (fp_u q) = P \<and>
       (fp_v q = None \<longleftrightarrow> fp_v ?p = None) \<and> (\<forall>t. length (at_time (fp_s q) t) = P)" ..
  note q = q0[THEN conjunct1] q0[THEN conjunct2, THEN conjunct1]
    q0[THEN conjunct2, THEN conjunct2, THEN conjunct1]
    q0[THEN conjunct2, THEN conjunct2, THEN conjunct2, THEN conjunct1]
    q0[THEN conjunct2, THEN conjunct2, THEN conjunct2, THEN conjunct2]
  have b2: "length (at_time (fp_s q) 0) = length (shape (sfs0 A))" using q(5) assms(2) by simp
  have b3: "length (at_time (normalise P (1 / 2) h) 0) = length (shape (sfs0 A))"
    using assms(6) assms(2) by simp
  have b4: "fp_v q = None \<longrightarrow> length (fp_u q) = length (shape (sfs0 A)) \<and>
           (\<forall>d\<in>set (shape (sfs0 A)). 2 \<le> d)"
    using q(3,4) uv(4) assms(2,7) by simp
  from prepare_nomig_ok[of ?N0 A q "normalise P (1 / 2) h" X, OF lenN b2 b3 b4]
  obtain K st0 where prep: "prepare_nomig X A (normalise P (1 / 2) h) q ?N0 = Inr (K, st0)"
    by blast
  note F = prepare_nomig_fields[OF prep]
  have "k_Tmax K \<le> g_t st0" using F assms(1) by simp
  then have loop: "nomig_loop X K fuel st0 = (Some (Inr st0), [])" by (rule nomig_loop_done)
  have sfs: "g_sfs st0 = sfs0 A" using F by simp
  have nomig: "integrate_nomig X A gamma h fuel
             = (Some (Inr \<lparr>sp_data = sfs0 A, sp_mask_corners = (\<not> finite_genome A)\<rparr>),
                [Evaluated ?N0])"
    using uv(1) q(1) q(2) init prep loop sfs assms(2)
    by (simp add: integrate_nomig_def Let_def)

  let ?p' = "\<lparr>fp_s = Constant [], fp_Npop = Npop A, fp_u = u, fp_v = v\<rparr>"
  have c1: "length (fp_u ?p') = P" using uv(2) by simp
  have c2: "\<forall>w. fp_v ?p' = Some w \<longrightarrow> length w = P" using uv(3) by simp
  have c4: "(if list_ex (\<lambda>f. f) ?fr then freeze_sizes ?fr (fp_Npop ?p') else Inr (fp_Npop ?p'))
              = Inr Np'" using N'(1) by (simp split: if_splits)
  from freeze_neutral_wf[OF assms(9) c1 c2 c4] obtain q' where q'0:
    "freeze_neutral ?fr ?p' = Inr q' \<and> fp_Npop q' = Np' \<and> length (fp_u q') = P \<and>
       (fp_v q' = None \<longleftrightarrow> fp_v ?p' = None)" ..
  note q' = q'0[THEN conjunct1] q'0[THEN conjunct2, THEN conjunct1]
    q'0[THEN conjunct2, THEN conjunct2, THEN conjunct1]
    q'0[THEN conjunct2, THEN conjunct2, THEN conjunct2]
  have d4: "fp_v q' = None \<longrightarrow> length (fp_u q') = length (shape (sfs0 A)) \<and>
           (\<forall>d\<in>set (shape (sfs0 A)). 2 \<le> d)"
    using q'(3,4) uv(4) assms(2,7) by simp
  from prepare_neutral_ok[of ?N0 A q' X, OF lenN d4]
  obtain K' st0' where prep': "prepare_neutral X A q' ?N0 = Inr (K', st0')" by blast
  note F' = prepare_neutral_fields[OF prep']
  have "m_Tmax K' \<le> n_t st0'" using F' assms(1) by simp
  then have loop': "neutral_loop X K' fuel st0' = (Some (Inr st0'), [])"
    by (rule neutral_loop_done)
  have sfs': "n_sfs st0' = sfs0 A" using F' by simp
  have neutral: "integrate_neutral X A fuel
             = (Some (Inr \<lparr>sp_data = sfs0 A, sp_mask_corners = (\<not> finite_genome A)\<rparr>),
                [Evaluated ?N0])"
    using uv(1) q'(1) q'(2) init prep' loop' sfs' assms(2)
    by (simp add: integrate_neutral_def Let_def)
  show ?thesis using N'(3) nomig neutral by blast
qed

theorem nonpositive_target_returns_input_witness:
  "tf (demo_args\<lparr>tf := - 1\<rparr>) \<le> 0 \<and>
   integrate_nomig demo_ext (demo_args\<lparr>tf := - 1\<rparr>) Not_given Not_given 0
     = (Some (Inr \<lparr>sp_data = demo_sfs, sp_mask_corners = True\<rparr>), [Evaluated [1]]) \<and>
   integrate_neutral demo_ext (demo_args\<lparr>tf := - 1\<rparr>) 0
     = (Some (Inr \<lparr>sp_data = demo_sfs, sp_mask_corners = True\<rparr>), [Evaluated [1]])"
proof -
  let ?A = "demo_args\<lparr>tf := - 1\<rparr>"
  have h1: "tf ?A \<le> 0" by simp
  have h2: "(1::nat) = length (shape (sfs0 ?A))" by (simp add: demo_args_def)
  have h3: "\<forall>t. length (at_time (Npop ?A) t) = 1" by (simp add: demo_args_def at_time_def)
  have h4: "\<forall>i<1. \<not> (i < length (frozen ?A) \<and> frozen ?A ! i) \<longrightarrow> 0 < at_time (Npop ?A) 0 ! i"
    by (simp add: demo_args_def at_time_def)
  have h5: "\<forall>t. length (at_time (normalise 1 0 Not_given) t) = 1"
    by (simp add: normalise_def at_time_def)
  have h6: "length (at_time (normalise 1 (1 / 2) Not_given) 0) = 1"
    by (simp add: normalise_def at_time_def)
  have h7: "\<not> finite_genome ?A \<longrightarrow>
           length (rates 1 (theta ?A)) = 1 \<and> (\<forall>d\<in>set (shape (sfs0 ?A)). 2 \<le> d)"
    by (simp add: demo_args_def rates_def)
  have h8: "finite_genome ?A \<longrightarrow> (\<exists>a b. theta_fd ?A = Some a \<and> theta_bd ?A = Some b \<and>
           length (rates 1 a) = 1 \<and> length (rates 1 b) = 1)"
    by (simp add: demo_args_def)
  have h9: "list_ex (\<lambda>f. f) (frozen ?A) \<longrightarrow> length (frozen ?A) = 1"
    by (simp add: demo_args_def)
  from nonpositive_target_returns_input[OF h1 h2 h3 h4 h5 h6 h7 h8 h9, of demo_ext 0]
  obtain N0 where N0: "\<not> any_nonpos N0 \<and>
           integrate_nomig demo_ext ?A Not_given Not_given 0
             = (Some (Inr \<lparr>sp_data = sfs0 ?A, sp_mask_corners = (\<not> finite_genome ?A)\<rparr>),
                [Evaluated N0]) \<and>
           integrate_neutral demo_ext ?A 0
             = (Some (Inr \<lparr>sp_data = sfs0 ?A, sp_mask_corners = (\<not> finite_genome ?A)\<rparr>),
                [Evaluated N0])" ..
  have ev: "snd (integrate_nomig demo_ext ?A Not_given Not_given 0) = [Evaluated [1]]"
    by (simp add: integrate_nomig_def Let_def mutation_rates_def demo_args_def freeze_nomig_def
        initial_sizes_def at_time_def any_nonpos_def split: sum.splits prod.splits option.splits)
  have "N0 = [1]" using N0[THEN conjunct2, THEN conjunct1] ev by simp
  then show ?thesis using N0 h1 by (simp add: demo_args_def)
qed

end
